theory Spec2Isabelle
  imports Main
begin

section \<open>Data model (types module)\<close>

text \<open>
  The TypeScript unions \<open>PieceNumber = 0 | 1 | ... | 9\<close>, the two orientations, the two drag
  sources and the two rotation directions are enumerations. \<open>Rotation\<close> is kept as an
  integer, because \<open>rotatePiece\<close> computes with it. Coordinates are integers.
  Record fields carry a prefix where two interfaces of the source share a field name
  (\<open>x\<close>, \<open>y\<close>, \<open>piece\<close>) or where the name is taken in HOL (\<open>id\<close>).
  The fields \<open>gridWidth\<close>, \<open>gridHeight\<close> and \<open>totalSegments\<close> of \<open>BoardState\<close> have the singleton
  types \<open>5\<close>, \<open>4\<close> and \<open>49\<close>; they carry no information and are left out.
\<close>

datatype PieceNumber = N0 | N1 | N2 | N3 | N4 | N5 | N6 | N7 | N8 | N9

datatype Orientation = Horizontal | Vertical

datatype SourceType = Inventory | Board

datatype Direction = Clockwise | Counterclockwise

datatype Operation = Add | Remove

record Segment =
  seg_x :: int
  seg_y :: int
  orientation :: Orientation

record Piece =
  piece_id :: string
  number :: PieceNumber
  rotation :: int
  segments :: "Segment list"

record BoardPosition =
  pos_x :: int
  pos_y :: int

record PlacedPiece =
  piece :: Piece
  position :: BoardPosition

record BoardState =
  placedPieces :: "PlacedPiece list"
  occupiedSegments :: "string set"

record DragState =
  drag_piece :: Piece
  sourceType :: SourceType
  sourcePosition :: "BoardPosition option"
  sourcePiece :: "Piece option"

record GameState =
  board :: BoardState
  inventory :: "Piece list"
  dragState :: "DragState option"

datatype GameAction =
    PICK_UP_PIECE Piece SourceType "BoardPosition option"
  | DROP_PIECE BoardPosition
  | CANCEL_DRAG
  | ROTATE_PIECE string Direction
  | RETURN_TO_INVENTORY Piece
  | RESET_BOARD
  | LOAD_STATE GameState

section \<open>Segment catalogue (segments module)\<close>

definition seg :: "int \<Rightarrow> int \<Rightarrow> Orientation \<Rightarrow> Segment" where
  "seg a b ori = \<lparr>seg_x = a, seg_y = b, orientation = ori\<rparr>"

fun SEGMENT_PATTERNS :: "PieceNumber \<Rightarrow> Segment list" where
  "SEGMENT_PATTERNS N0 =
     [seg 0 0 Horizontal, seg 1 0 Vertical, seg 0 1 Horizontal, seg 0 0 Vertical]"
| "SEGMENT_PATTERNS N1 =
     [seg 1 0 Vertical, seg 1 1 Vertical]"
| "SEGMENT_PATTERNS N2 =
     [seg 0 0 Horizontal, seg 1 0 Vertical, seg 0 1 Horizontal, seg 0 1 Vertical,
      seg 0 2 Horizontal]"
| "SEGMENT_PATTERNS N3 =
     [seg 0 0 Horizontal, seg 1 0 Vertical, seg 0 1 Horizontal, seg 1 1 Vertical,
      seg 0 2 Horizontal]"
| "SEGMENT_PATTERNS N4 =
     [seg 0 0 Vertical, seg 0 1 Horizontal, seg 1 0 Vertical, seg 1 1 Vertical]"
| "SEGMENT_PATTERNS N5 =
     [seg 0 0 Horizontal, seg 0 0 Vertical, seg 0 1 Horizontal, seg 1 1 Vertical,
      seg 0 2 Horizontal]"
| "SEGMENT_PATTERNS N6 =
     [seg 0 0 Horizontal, seg 0 0 Vertical, seg 0 1 Horizontal, seg 0 1 Vertical,
      seg 0 2 Horizontal, seg 1 1 Vertical]"
| "SEGMENT_PATTERNS N7 =
     [seg 0 0 Horizontal, seg 1 0 Vertical, seg 1 1 Vertical]"
| "SEGMENT_PATTERNS N8 =
     [seg 0 0 Horizontal, seg 1 0 Vertical, seg 1 1 Vertical, seg 0 2 Horizontal,
      seg 0 1 Vertical, seg 0 0 Vertical, seg 0 1 Horizontal]"
| "SEGMENT_PATTERNS N9 =
     [seg 0 0 Horizontal, seg 1 0 Vertical, seg 1 1 Vertical, seg 0 2 Horizontal,
      seg 0 0 Vertical, seg 0 1 Horizontal]"

text \<open>
  Decimal rendering of an integer, as a JavaScript template literal prints it
  (a leading minus sign for negative numbers, no sign for zero).
\<close>

definition digitChar :: "nat \<Rightarrow> char" where
  "digitChar d = ''0123456789'' ! d"

fun digitsOf :: "nat \<Rightarrow> string" where
  "digitsOf n = (if n < 10 then [digitChar n] else digitsOf (n div 10) @ [digitChar (n mod 10)])"

declare digitsOf.simps [simp del]

definition numberToString :: "int \<Rightarrow> string" where
  "numberToString i = (if i < 0 then CHR ''-'' # digitsOf (nat (- i)) else digitsOf (nat i))"

definition segmentToId :: "Segment \<Rightarrow> string" where
  "segmentToId segment =
     (let orient = (if orientation segment = Horizontal then ''h'' else ''v'')
      in numberToString (seg_x segment) @ '','' @ numberToString (seg_y segment) @ '','' @ orient)"

section \<open>Rotation (rotation module)\<close>

text \<open>
  \<open>getBoundingBox\<close> starts from \<open>Infinity\<close> and \<open>-Infinity\<close>; \<open>None\<close> stands for the
  infinite start value, which survives only when the list is empty.
\<close>

record BoundingBox =
  minX :: "int option"
  minY :: "int option"
  maxX :: "int option"
  maxY :: "int option"

definition mathMin :: "int option \<Rightarrow> int \<Rightarrow> int option" where
  "mathMin acc v = (case acc of None \<Rightarrow> Some v | Some m \<Rightarrow> Some (min m v))"

definition mathMax :: "int option \<Rightarrow> int \<Rightarrow> int option" where
  "mathMax acc v = (case acc of None \<Rightarrow> Some v | Some m \<Rightarrow> Some (max m v))"

definition bboxStep :: "Segment \<Rightarrow> BoundingBox \<Rightarrow> BoundingBox" where
  "bboxStep s b =
     (if orientation s = Horizontal
      then \<lparr>minX = mathMin (minX b) (seg_x s), minY = mathMin (minY b) (seg_y s),
            maxX = mathMax (maxX b) (seg_x s + 1), maxY = mathMax (maxY b) (seg_y s)\<rparr>
      else \<lparr>minX = mathMin (minX b) (seg_x s), minY = mathMin (minY b) (seg_y s),
            maxX = mathMax (maxX b) (seg_x s), maxY = mathMax (maxY b) (seg_y s + 1)\<rparr>)"

definition getBoundingBox :: "Segment list \<Rightarrow> BoundingBox" where
  "getBoundingBox segs =
     fold bboxStep segs \<lparr>minX = None, minY = None, maxX = None, maxY = None\<rparr>"

definition rotateSegment90Clockwise :: "Segment \<Rightarrow> Segment" where
  "rotateSegment90Clockwise segment =
     (if orientation segment = Horizontal
      then \<lparr>seg_x = seg_y segment, seg_y = - seg_x segment - 1, orientation = Vertical\<rparr>
      else \<lparr>seg_x = seg_y segment, seg_y = - seg_x segment, orientation = Horizontal\<rparr>)"

text \<open>
  The bounding box of a non-empty list is finite; for the empty list the source maps over
  no element, so the result is empty whatever the box holds.
\<close>

definition normalizeSegments :: "Segment list \<Rightarrow> Segment list" where
  "normalizeSegments segs =
     (let bbox = getBoundingBox segs
      in case (minX bbox, minY bbox) of
           (Some mx, Some my) \<Rightarrow>
             map (\<lambda>s. \<lparr>seg_x = seg_x s - mx, seg_y = seg_y s - my, orientation = orientation s\<rparr>) segs
         | _ \<Rightarrow> [])"

text \<open>
  The loop \<open>for (let i = 0; i < times; i++)\<close> with \<open>times = rotation / 90\<close> (a real
  quotient) runs once for every natural number below the quotient, that is
  \<open>\<lceil>rotation / 90\<rceil>\<close> times, and never for a negative rotation.
\<close>

fun rotateLoop :: "nat \<Rightarrow> Segment list \<Rightarrow> Segment list" where
  "rotateLoop 0 rotated = rotated"
| "rotateLoop (Suc n) rotated = rotateLoop n (map rotateSegment90Clockwise rotated)"

definition rotateSegments :: "Segment list \<Rightarrow> int \<Rightarrow> Segment list" where
  "rotateSegments segs rot =
     (if rot = 0 then segs
      else normalizeSegments (rotateLoop (nat ((rot + 89) div 90)) segs))"

text \<open>The remainder operator \<open>%\<close> of JavaScript takes the sign of the dividend.\<close>

definition jsRemainder :: "int \<Rightarrow> int \<Rightarrow> int" where
  "jsRemainder a b = (if a < 0 then - ((- a) mod \<bar>b\<bar>) else a mod \<bar>b\<bar>)"

definition rotatePiece :: "Piece \<Rightarrow> Direction \<Rightarrow> Piece" where
  "rotatePiece p direction =
     (let delta = (if direction = Clockwise then 90 else - 90);
          newRotation = jsRemainder (rotation p + delta + 360) 360;
          baseSegments = SEGMENT_PATTERNS (number p);
          rotatedSegments = rotateSegments baseSegments newRotation
      in p\<lparr>rotation := newRotation, segments := rotatedSegments\<rparr>)"

definition getPieceSegments :: "Piece \<Rightarrow> Segment list" where
  "getPieceSegments p = rotateSegments (SEGMENT_PATTERNS (number p)) (rotation p)"

section \<open>Game state and reducer (gameState module)\<close>

definition pieceNumberValue :: "PieceNumber \<Rightarrow> int" where
  "pieceNumberValue n =
     (case n of N0 \<Rightarrow> 0 | N1 \<Rightarrow> 1 | N2 \<Rightarrow> 2 | N3 \<Rightarrow> 3 | N4 \<Rightarrow> 4
              | N5 \<Rightarrow> 5 | N6 \<Rightarrow> 6 | N7 \<Rightarrow> 7 | N8 \<Rightarrow> 8 | N9 \<Rightarrow> 9)"

definition initialPiece :: "PieceNumber \<Rightarrow> Piece" where
  "initialPiece n =
     \<lparr>piece_id = ''piece-'' @ numberToString (pieceNumberValue n), number = n, rotation = 0,
      segments = SEGMENT_PATTERNS n\<rparr>"

definition getInitialState :: GameState where
  "getInitialState =
     \<lparr>board = \<lparr>placedPieces = [], occupiedSegments = {}\<rparr>,
      inventory = map initialPiece [N0, N1, N2, N3, N4, N5, N6, N7, N8, N9],
      dragState = None\<rparr>"

definition getPieceSegmentPositions :: "Piece \<Rightarrow> BoardPosition \<Rightarrow> Segment list" where
  "getPieceSegmentPositions p pos =
     map (\<lambda>s. \<lparr>seg_x = pos_x pos + seg_x s, seg_y = pos_y pos + seg_y s,
               orientation = orientation s\<rparr>) (getPieceSegments p)"

text \<open>The loop of \<open>checkCollision\<close>, with its early returns.\<close>

fun collisionLoop :: "Segment list \<Rightarrow> string set \<Rightarrow> bool" where
  "collisionLoop [] occ = False"
| "collisionLoop (segment # rest) occ =
     (if segmentToId segment \<in> occ then True
      else if orientation segment = Horizontal
      then (if seg_x segment < 0 \<or> seg_x segment \<ge> 5 \<or> seg_y segment < 0 \<or> seg_y segment > 4
            then True else collisionLoop rest occ)
      else (if seg_x segment < 0 \<or> seg_x segment > 5 \<or> seg_y segment < 0 \<or> seg_y segment \<ge> 4
            then True else collisionLoop rest occ))"

definition checkCollision :: "Piece \<Rightarrow> BoardPosition \<Rightarrow> string set \<Rightarrow> bool" where
  "checkCollision p pos occ = collisionLoop (getPieceSegmentPositions p pos) occ"

definition updateStep :: "Operation \<Rightarrow> Segment \<Rightarrow> string set \<Rightarrow> string set" where
  "updateStep operation segment newSet =
     (if operation = Add then insert (segmentToId segment) newSet
      else newSet - {segmentToId segment})"

definition updateOccupiedSegments ::
  "string set \<Rightarrow> Piece \<Rightarrow> BoardPosition \<Rightarrow> Operation \<Rightarrow> string set" where
  "updateOccupiedSegments occ p pos operation =
     fold (updateStep operation) (getPieceSegmentPositions p pos) occ"

text \<open>\<open>Array.prototype.findIndex\<close>: the first index that satisfies the test, \<open>None\<close> for \<open>-1\<close>.\<close>

fun findIndex :: "('a \<Rightarrow> bool) \<Rightarrow> 'a list \<Rightarrow> nat option" where
  "findIndex P [] = None"
| "findIndex P (a # as) =
     (if P a then Some 0 else (case findIndex P as of None \<Rightarrow> None | Some i \<Rightarrow> Some (Suc i)))"

text \<open>
  The part of the \<open>DROP_PIECE\<close> case after the collision test: it is reached when there is no
  collision, and also when the collision branch returns nothing (a board source without a
  source position).
\<close>

definition placeOnBoard :: "GameState \<Rightarrow> DragState \<Rightarrow> BoardPosition \<Rightarrow> GameState" where
  "placeOnBoard state d pos =
     (let p = drag_piece d;
          newOccupiedSegments =
            updateOccupiedSegments (occupiedSegments (board state)) p pos Add
      in if sourceType d = Inventory
         then state\<lparr>board := (board state)\<lparr>
                      placedPieces := placedPieces (board state) @ [\<lparr>piece = p, position = pos\<rparr>],
                      occupiedSegments := newOccupiedSegments\<rparr>,
                    inventory := filter (\<lambda>q. piece_id q \<noteq> piece_id p) (inventory state),
                    dragState := None\<rparr>
         else (case sourcePosition d of
                 Some sp \<Rightarrow>
                   state\<lparr>board := (board state)\<lparr>
                           placedPieces :=
                             map (\<lambda>q. if piece_id (piece q) = piece_id p
                                       then \<lparr>piece = p, position = pos\<rparr> else q)
                                 (placedPieces (board state)),
                           occupiedSegments := newOccupiedSegments\<rparr>,
                         dragState := None\<rparr>
               | None \<Rightarrow> state\<lparr>dragState := None\<rparr>))"

fun gameReducer :: "GameState \<Rightarrow> GameAction \<Rightarrow> GameState" where
  "gameReducer state (PICK_UP_PIECE p source pos) =
     (case (source, pos) of
        (Board, Some sp) \<Rightarrow>
          state\<lparr>board := (board state)\<lparr>
                  occupiedSegments :=
                    updateOccupiedSegments (occupiedSegments (board state)) p sp Remove\<rparr>,
                dragState := Some \<lparr>drag_piece = p, sourceType = source,
                                   sourcePosition = Some sp, sourcePiece = Some p\<rparr>\<rparr>
      | _ \<Rightarrow>
          state\<lparr>dragState := Some \<lparr>drag_piece = p, sourceType = source,
                                   sourcePosition = None, sourcePiece = None\<rparr>\<rparr>)"
| "gameReducer state (DROP_PIECE pos) =
     (case dragState state of
        None \<Rightarrow> state
      | Some d \<Rightarrow>
          if checkCollision (drag_piece d) pos (occupiedSegments (board state))
          then (if sourceType d = Inventory then state\<lparr>dragState := None\<rparr>
                else (case sourcePosition d of
                        Some sp \<Rightarrow>
                          (let restorePiece =
                                 (case sourcePiece d of Some q \<Rightarrow> q | None \<Rightarrow> drag_piece d)
                           in state\<lparr>board := (board state)\<lparr>
                                      occupiedSegments :=
                                        updateOccupiedSegments (occupiedSegments (board state))
                                          restorePiece sp Add\<rparr>,
                                    dragState := None\<rparr>)
                      | None \<Rightarrow> placeOnBoard state d pos))
          else placeOnBoard state d pos)"
| "gameReducer state CANCEL_DRAG =
     (case dragState state of
        None \<Rightarrow> state
      | Some d \<Rightarrow>
          if sourceType d = Inventory then state\<lparr>dragState := None\<rparr>
          else (case sourcePosition d of
                  Some sp \<Rightarrow>
                    (let restorePiece =
                           (case sourcePiece d of Some q \<Rightarrow> q | None \<Rightarrow> drag_piece d)
                     in state\<lparr>board := (board state)\<lparr>
                                occupiedSegments :=
                                  updateOccupiedSegments (occupiedSegments (board state))
                                    restorePiece sp Add\<rparr>,
                              dragState := None\<rparr>)
                | None \<Rightarrow> state\<lparr>dragState := None\<rparr>))"
| "gameReducer state (ROTATE_PIECE pieceId direction) =
     (let inventoryIndex = findIndex (\<lambda>p. piece_id p = pieceId) (inventory state);
          newInventory =
            (case inventoryIndex of
               None \<Rightarrow> inventory state
             | Some i \<Rightarrow> (inventory state)[i := rotatePiece (inventory state ! i) direction]);
          dragged = (case dragState state of
                       None \<Rightarrow> False
                     | Some d \<Rightarrow> piece_id (drag_piece d) = pieceId);
          newDragState =
            (case dragState state of
               None \<Rightarrow> None
             | Some d \<Rightarrow>
                 if piece_id (drag_piece d) = pieceId
                 then Some (d\<lparr>drag_piece := rotatePiece (drag_piece d) direction\<rparr>)
                 else Some d)
      in if inventoryIndex = None \<and> \<not> dragged then state
         else state\<lparr>inventory := newInventory, dragState := newDragState\<rparr>)"
| "gameReducer state (RETURN_TO_INVENTORY p) =
     (if (case dragState state of None \<Rightarrow> False | Some d \<Rightarrow> sourceType d = Inventory)
      then state\<lparr>dragState := None\<rparr>
      else
        (let newPlacedPieces =
               filter (\<lambda>q. piece_id (piece q) \<noteq> piece_id p) (placedPieces (board state));
             placedPiece =
               find (\<lambda>q. piece_id (piece q) = piece_id p) (placedPieces (board state));
             newOccupiedSegments =
               (case placedPiece of
                  None \<Rightarrow> occupiedSegments (board state)
                | Some q \<Rightarrow>
                    updateOccupiedSegments (occupiedSegments (board state))
                      (piece q) (position q) Remove);
             isAlreadyInInventory = list_ex (\<lambda>q. piece_id q = piece_id p) (inventory state)
         in state\<lparr>board := (board state)\<lparr>placedPieces := newPlacedPieces,
                                          occupiedSegments := newOccupiedSegments\<rparr>,
                  inventory := (if isAlreadyInInventory then inventory state
                                else inventory state @ [p]),
                  dragState := None\<rparr>))"
| "gameReducer state RESET_BOARD = getInitialState"
| "gameReducer state (LOAD_STATE payload) = payload"

section \<open>Notions used to state the properties\<close>

text \<open>
  The valid range of a board segment, in the words of the specification: a horizontal
  segment has \<open>0 \<le> x \<le> 4\<close> and \<open>0 \<le> y \<le> 4\<close>, a vertical one \<open>0 \<le> x \<le> 5\<close> and
  \<open>0 \<le> y \<le> 3\<close>.
\<close>

definition specValidRange :: "Segment \<Rightarrow> bool" where
  "specValidRange s =
     (case orientation s of
        Horizontal \<Rightarrow> 0 \<le> seg_x s \<and> seg_x s \<le> 4 \<and> 0 \<le> seg_y s \<and> seg_y s \<le> 4
      | Vertical \<Rightarrow> 0 \<le> seg_x s \<and> seg_x s \<le> 5 \<and> 0 \<le> seg_y s \<and> seg_y s \<le> 3)"

text \<open>The segment identities a piece covers at a position, and those of a list of placed pieces.\<close>

definition pieceSegmentIds :: "Piece \<Rightarrow> BoardPosition \<Rightarrow> string set" where
  "pieceSegmentIds p pos = set (map segmentToId (getPieceSegmentPositions p pos))"

definition placedIds :: "PlacedPiece \<Rightarrow> string set" where
  "placedIds q = pieceSegmentIds (piece q) (position q)"

definition placedSegmentIds :: "PlacedPiece list \<Rightarrow> string set" where
  "placedSegmentIds ps = \<Union> (set (map placedIds ps))"

definition inventoryPieceIds :: "GameState \<Rightarrow> string set" where
  "inventoryPieceIds s = set (map piece_id (inventory s))"

definition boardPieceIds :: "GameState \<Rightarrow> string set" where
  "boardPieceIds s = set (map (\<lambda>q. piece_id (piece q)) (placedPieces (board s)))"

text \<open>
  States reachable through the reducer, with any payload in the actions. \<open>LOAD_STATE\<close>
  installs its payload as it is, so the payload is taken to be a state reached before.
\<close>

inductive reachable :: "GameState \<Rightarrow> bool" where
  initial: "reachable getInitialState"
| step: "reachable s \<Longrightarrow> (\<And>t. a \<noteq> LOAD_STATE t) \<Longrightarrow> reachable (gameReducer s a)"
| load: "reachable s \<Longrightarrow> reachable t \<Longrightarrow> reachable (gameReducer s (LOAD_STATE t))"

text \<open>
  The actions the components dispatch: a pickup names a piece where it lies (an inventory
  piece, or a placed piece with its position) and starts only when no other drag is active
  (the board component dispatches the same board pickup twice in a row, which is allowed);
  a return to the inventory during a drag from the board names the dragged piece. Drop,
  cancel, rotate and reset are free.
\<close>

fun allowed :: "GameState \<Rightarrow> GameAction \<Rightarrow> bool" where
  "allowed s (PICK_UP_PIECE p Inventory pos) = (dragState s = None \<and> p \<in> set (inventory s))"
| "allowed s (PICK_UP_PIECE p Board None) = False"
| "allowed s (PICK_UP_PIECE p Board (Some sp)) =
     (\<lparr>piece = p, position = sp\<rparr> \<in> set (placedPieces (board s))
      \<and> (dragState s = None
         \<or> dragState s = Some \<lparr>drag_piece = p, sourceType = Board,
                                sourcePosition = Some sp, sourcePiece = Some p\<rparr>))"
| "allowed s (RETURN_TO_INVENTORY p) =
     (case dragState s of
        None \<Rightarrow> True
      | Some d \<Rightarrow> sourceType d = Inventory \<or> piece_id p = piece_id (drag_piece d))"
| "allowed s (LOAD_STATE t) = False"
| "allowed s a = True"

inductive guardedReachable :: "GameState \<Rightarrow> bool" where
  g_initial: "guardedReachable getInitialState"
| g_step: "guardedReachable s \<Longrightarrow> allowed s a \<Longrightarrow> guardedReachable (gameReducer s a)"
| g_load: "guardedReachable s \<Longrightarrow> guardedReachable t
           \<Longrightarrow> guardedReachable (gameReducer s (LOAD_STATE t))"

text \<open>Placed pieces cover pairwise disjoint sets of segment identities.\<close>

fun disjointPlaced :: "PlacedPiece list \<Rightarrow> bool" where
  "disjointPlaced [] = True"
| "disjointPlaced (q # qs) = (placedIds q \<inter> placedSegmentIds qs = {} \<and> disjointPlaced qs)"

text \<open>
  What the occupancy index holds in each phase: the union over the placed pieces when no
  piece is in flight or the piece in flight comes from the inventory; during a drag from the
  board, the union over the other placed pieces, the snapshot being the placed entry.
\<close>

definition dragConsistent :: "GameState \<Rightarrow> bool" where
  "dragConsistent s =
     (case dragState s of
        None \<Rightarrow> occupiedSegments (board s) = placedSegmentIds (placedPieces (board s))
      | Some d \<Rightarrow>
          (case sourceType d of
             Inventory \<Rightarrow>
               occupiedSegments (board s) = placedSegmentIds (placedPieces (board s))
               \<and> piece_id (drag_piece d) \<in> inventoryPieceIds s
           | Board \<Rightarrow>
               (\<exists>q sp. sourcePiece d = Some q \<and> sourcePosition d = Some sp
                  \<and> \<lparr>piece = q, position = sp\<rparr> \<in> set (placedPieces (board s))
                  \<and> piece_id (drag_piece d) = piece_id q
                  \<and> occupiedSegments (board s) =
                      placedSegmentIds
                        (filter (\<lambda>r. piece_id (piece r) \<noteq> piece_id q)
                           (placedPieces (board s))))))"

definition consistent :: "GameState \<Rightarrow> bool" where
  "consistent s =
     (distinct (map (\<lambda>q. piece_id (piece q)) (placedPieces (board s)))
      \<and> disjointPlaced (placedPieces (board s))
      \<and> inventoryPieceIds s \<inter> boardPieceIds s = {}
      \<and> dragConsistent s)"

text \<open>The actions that can lie between a pickup and the drop that ends the drag.\<close>

fun isRotate :: "GameAction \<Rightarrow> bool" where
  "isRotate (ROTATE_PIECE i d) = True"
| "isRotate a = False"

section \<open>Concrete scenarios\<close>

definition piece1 :: Piece where
  "piece1 = initialPiece N1"

definition piece2 :: Piece where
  "piece2 = initialPiece N2"

definition at :: "int \<Rightarrow> int \<Rightarrow> BoardPosition" where
  "at a b = \<lparr>pos_x = a, pos_y = b\<rparr>"

text \<open>Pick up piece-1 from the inventory, then drop it at \<open>(2, 1)\<close>.\<close>

definition inventoryPicked :: GameState where
  "inventoryPicked = gameReducer getInitialState (PICK_UP_PIECE piece1 Inventory None)"

definition scenarioDrop :: GameState where
  "scenarioDrop = gameReducer inventoryPicked (DROP_PIECE (at 2 1))"

text \<open>Pick the placed piece-1 up again, from the board.\<close>

definition boardPicked :: GameState where
  "boardPicked = gameReducer scenarioDrop (PICK_UP_PIECE piece1 Board (Some (at 2 1)))"


text \<open>A pickup that claims the board as source for piece-1, which lies in the inventory.\<close>

definition strayPicked :: GameState where
  "strayPicked = gameReducer getInitialState (PICK_UP_PIECE piece1 Board (Some (at 0 0)))"

definition strayDrop :: GameState where
  "strayDrop = gameReducer strayPicked (DROP_PIECE (at 2 1))"

text \<open>A pickup with the board as source and no position.\<close>

definition positionlessPicked :: GameState where
  "positionlessPicked = gameReducer getInitialState (PICK_UP_PIECE piece1 Board None)"

section \<open>Evaluation of the concrete scenarios\<close>

lemmas geometry_defs =
  getPieceSegmentPositions_def getPieceSegments_def rotateSegments_def normalizeSegments_def
  getBoundingBox_def bboxStep_def mathMin_def mathMax_def rotateSegment90Clockwise_def seg_def

lemmas id_defs = segmentToId_def numberToString_def digitsOf.simps digitChar_def

lemmas state_defs =
  getInitialState_def initialPiece_def pieceNumberValue_def placeOnBoard_def
  checkCollision_def updateOccupiedSegments_def updateStep_def piece1_def piece2_def at_def

lemma piece1_ids_at_2_1: "pieceSegmentIds piece1 (at 2 1) = {''3,1,v'', ''3,2,v''}"
  by (simp add: pieceSegmentIds_def geometry_defs id_defs state_defs)

lemma piece1_positions_at_5_5:
  "getPieceSegmentPositions piece1 (at 5 5) = [seg 6 5 Vertical, seg 6 6 Vertical]"
  by (simp add: geometry_defs state_defs)

lemma piece1_collides_at_5_5: "checkCollision piece1 (at 5 5) occ"
  by (simp add: checkCollision_def piece1_positions_at_5_5) (simp add: seg_def)

lemma piece1_ids_at_5_5: "pieceSegmentIds piece1 (at 5 5) = {''6,5,v'', ''6,6,v''}"
  by (simp add: pieceSegmentIds_def piece1_positions_at_5_5) (simp add: seg_def id_defs)


lemma inventoryPicked_eval:
  "inventoryPicked =
     getInitialState\<lparr>dragState :=
       Some \<lparr>drag_piece = piece1, sourceType = Inventory, sourcePosition = None,
             sourcePiece = None\<rparr>\<rparr>"
  by (simp add: inventoryPicked_def)

lemma scenarioDrop_eval:
  "scenarioDrop =
     \<lparr>board = \<lparr>placedPieces = [\<lparr>piece = piece1, position = at 2 1\<rparr>],
               occupiedSegments = {''3,1,v'', ''3,2,v''}\<rparr>,
      inventory = map initialPiece [N0, N2, N3, N4, N5, N6, N7, N8, N9],
      dragState = None\<rparr>"
  by (simp add: scenarioDrop_def inventoryPicked_def geometry_defs id_defs state_defs
        insert_commute)

lemma boardPicked_eval:
  "boardPicked =
     \<lparr>board = \<lparr>placedPieces = [\<lparr>piece = piece1, position = at 2 1\<rparr>],
               occupiedSegments = {}\<rparr>,
      inventory = map initialPiece [N0, N2, N3, N4, N5, N6, N7, N8, N9],
      dragState = Some \<lparr>drag_piece = piece1, sourceType = Board,
                         sourcePosition = Some (at 2 1), sourcePiece = Some piece1\<rparr>\<rparr>"
  unfolding boardPicked_def scenarioDrop_eval
  by (simp add: geometry_defs id_defs state_defs)


lemma strayDrop_eval:
  "strayDrop =
     getInitialState\<lparr>board := \<lparr>placedPieces = [], occupiedSegments = {''3,1,v'', ''3,2,v''}\<rparr>\<rparr>"
  by (simp add: strayDrop_def strayPicked_def geometry_defs id_defs state_defs insert_commute)

lemma positionlessPicked_eval:
  "positionlessPicked =
     getInitialState\<lparr>dragState :=
       Some \<lparr>drag_piece = piece1, sourceType = Board, sourcePosition = None,
             sourcePiece = None\<rparr>\<rparr>"
  by (simp add: positionlessPicked_def)

lemma reachable_scenarioDrop: "reachable scenarioDrop"
  unfolding scenarioDrop_def inventoryPicked_def
  by (intro reachable.step reachable.initial) simp_all

lemma reachable_boardPicked: "reachable boardPicked"
  unfolding boardPicked_def by (intro reachable.step reachable_scenarioDrop) simp

lemma reachable_strayDrop: "reachable strayDrop"
  unfolding strayDrop_def strayPicked_def
  by (intro reachable.step reachable.initial) simp_all

section \<open>Geometry of a single segment\<close>

text \<open>
  Claim C5. The clockwise quarter turn sends the horizontal segment at \<open>(a, b)\<close> to the
  vertical segment at \<open>(b, -a-1)\<close>, and the vertical segment at \<open>(a, b)\<close> to the horizontal
  segment at \<open>(b, -a)\<close>, for all integers \<open>a\<close> and \<open>b\<close>.
\<close>

theorem rotateSegment90Clockwise_maps:
  "rotateSegment90Clockwise \<lparr>seg_x = a, seg_y = b, orientation = Horizontal\<rparr>
     = \<lparr>seg_x = b, seg_y = - a - 1, orientation = Vertical\<rparr>
   \<and> rotateSegment90Clockwise \<lparr>seg_x = a, seg_y = b, orientation = Vertical\<rparr>
     = \<lparr>seg_x = b, seg_y = - a, orientation = Horizontal\<rparr>"
  by (simp add: rotateSegment90Clockwise_def)

section \<open>Derived segments of a piece\<close>

lemma derived_min_at:
  assumes "rotation p = r" and "r = 0 \<or> r = 90 \<or> r = 180 \<or> r = 270"
  shows "Min (seg_x ` set (getPieceSegments p)) = (if number p = N1 \<and> r = 0 then 1 else 0)
       \<and> Min (seg_y ` set (getPieceSegments p)) = 0"
  using assms by (cases "number p") (auto simp: geometry_defs eval_nat_numeral)

text \<open>
  Claim C3, as stated, fails: digit 1 at rotation 0 keeps its base pattern \<open>b, c\<close>, both at
  \<open>x = 1\<close>, because a rotation of 0 returns the pattern without normalising it. The minimum
  \<open>x\<close> of its derived segments is 1.
\<close>

theorem digit1_unrotated_min_x_counterexample:
  "number piece1 = N1 \<and> rotation piece1 = 0
   \<and> Min (seg_x ` set (getPieceSegments piece1)) \<noteq> 0"
  using derived_min_at [of piece1 0] by (simp add: piece1_def initialPiece_def)

text \<open>
  Claim C3, amended. For every digit and every rotation in \<open>{0, 90, 180, 270}\<close> the derived
  segments have minimum \<open>y\<close> equal to 0, and minimum \<open>x\<close> equal to 0 except for digit 1 at
  rotation 0, where the minimum \<open>x\<close> is 1.
\<close>

theorem derived_segments_min:
  assumes "rotation p \<in> {0, 90, 180, 270}"
  shows "Min (seg_x ` set (getPieceSegments p))
           = (if number p = N1 \<and> rotation p = 0 then 1 else 0)
       \<and> Min (seg_y ` set (getPieceSegments p)) = 0"
  using assms derived_min_at [of p "rotation p"] by simp

theorem derived_segments_min_witness:
  "rotation (rotatePiece piece2 Clockwise) \<in> {0, 90, 180, 270}
   \<and> Min (seg_x ` set (getPieceSegments (rotatePiece piece2 Clockwise))) = 0
   \<and> Min (seg_y ` set (getPieceSegments (rotatePiece piece2 Clockwise))) = 0"
  using derived_segments_min [of "rotatePiece piece2 Clockwise"]
  by (simp add: rotatePiece_def jsRemainder_def piece2_def initialPiece_def)

section \<open>Four quarter turns\<close>

lemma rotatePiece_fields:
  "rotatePiece p d =
     p\<lparr>rotation := jsRemainder (rotation p + (if d = Clockwise then 90 else - 90) + 360) 360,
       segments := rotateSegments (SEGMENT_PATTERNS (number p))
                     (jsRemainder (rotation p + (if d = Clockwise then 90 else - 90) + 360) 360)\<rparr>"
  by (simp add: rotatePiece_def Let_def)

lemma piece_id_rotatePiece [simp]: "piece_id (rotatePiece p d) = piece_id p"
  by (simp add: rotatePiece_fields)

lemma four_turns_at:
  assumes r: "rotation p = r" and v: "r = 0 \<or> r = 90 \<or> r = 180 \<or> r = 270"
    and s: "segments p = rotateSegments (SEGMENT_PATTERNS (number p)) r"
  shows "rotatePiece (rotatePiece (rotatePiece (rotatePiece p d) d) d) d = p"
proof -
  have same: "p\<lparr>rotation := r, segments := rotateSegments (SEGMENT_PATTERNS (number p)) r\<rparr> = p"
    using r s by simp
  show ?thesis
  proof (cases d)
    case Clockwise
    from v show ?thesis
    proof (elim disjE)
      assume "r = 0" with r same Clockwise show ?thesis
        by (simp add: rotatePiece_fields jsRemainder_def)
    next
      assume "r = 90" with r same Clockwise show ?thesis
        by (simp add: rotatePiece_fields jsRemainder_def)
    next
      assume "r = 180" with r same Clockwise show ?thesis
        by (simp add: rotatePiece_fields jsRemainder_def)
    next
      assume "r = 270" with r same Clockwise show ?thesis
        by (simp add: rotatePiece_fields jsRemainder_def)
    qed
  next
    case Counterclockwise
    from v show ?thesis
    proof (elim disjE)
      assume "r = 0" with r same Counterclockwise show ?thesis
        by (simp add: rotatePiece_fields jsRemainder_def)
    next
      assume "r = 90" with r same Counterclockwise show ?thesis
        by (simp add: rotatePiece_fields jsRemainder_def)
    next
      assume "r = 180" with r same Counterclockwise show ?thesis
        by (simp add: rotatePiece_fields jsRemainder_def)
    next
      assume "r = 270" with r same Counterclockwise show ?thesis
        by (simp add: rotatePiece_fields jsRemainder_def)
    qed
  qed
qed

text \<open>
  Claim C4. A piece whose rotation is one of \<open>0, 90, 180, 270\<close> and whose segments are the
  derived view of its number and rotation is returned unchanged, rotation and segment list
  included, by four clockwise turns and by four counterclockwise turns.
\<close>

theorem four_rotations_identity:
  assumes "rotation p \<in> {0, 90, 180, 270}" and "segments p = getPieceSegments p"
  shows "rotatePiece (rotatePiece (rotatePiece (rotatePiece p Clockwise) Clockwise) Clockwise)
           Clockwise = p
       \<and> rotatePiece (rotatePiece (rotatePiece (rotatePiece p Counterclockwise)
           Counterclockwise) Counterclockwise) Counterclockwise = p"
  using assms four_turns_at [of p "rotation p"] by (simp add: getPieceSegments_def)

theorem four_rotations_identity_witness:
  "rotation piece2 \<in> {0, 90, 180, 270} \<and> segments piece2 = getPieceSegments piece2
   \<and> rotatePiece (rotatePiece (rotatePiece (rotatePiece piece2 Clockwise) Clockwise) Clockwise)
       Clockwise = piece2
   \<and> rotatePiece (rotatePiece (rotatePiece (rotatePiece piece2 Counterclockwise)
       Counterclockwise) Counterclockwise) Counterclockwise = piece2"
proof -
  have r: "rotation piece2 \<in> {0, 90, 180, 270}"
    by (simp add: piece2_def initialPiece_def)
  have s: "segments piece2 = getPieceSegments piece2"
    by (simp add: piece2_def initialPiece_def getPieceSegments_def rotateSegments_def)
  from r s four_rotations_identity [OF r s] show ?thesis by simp
qed

section \<open>Collision check\<close>

lemma collisionLoop_iff:
  "collisionLoop segs occ \<longleftrightarrow> (\<exists>s \<in> set segs. \<not> specValidRange s \<or> segmentToId s \<in> occ)"
  by (induction segs) (auto simp: specValidRange_def split: Orientation.splits)

text \<open>
  Claim C6. The collision check is true exactly when some absolute segment of the piece at
  the position lies outside the valid range of its orientation or has its identity in the
  occupied set.
\<close>

theorem checkCollision_iff:
  "checkCollision p pos occ \<longleftrightarrow>
     (\<exists>s \<in> set (getPieceSegmentPositions p pos). \<not> specValidRange s \<or> segmentToId s \<in> occ)"
  by (simp add: checkCollision_def collisionLoop_iff)

theorem checkCollision_iff_witness:
  "checkCollision piece1 (at 2 1) {''3,2,v''}
   \<and> (\<exists>s \<in> set (getPieceSegmentPositions piece1 (at 2 1)).
         \<not> specValidRange s \<or> segmentToId s \<in> {''3,2,v''})
   \<and> \<not> checkCollision piece1 (at 2 1) {''0,0,h''}"
proof -
  have pos: "getPieceSegmentPositions piece1 (at 2 1) = [seg 3 1 Vertical, seg 3 2 Vertical]"
    by (simp add: geometry_defs state_defs)
  have a: "\<exists>s \<in> set (getPieceSegmentPositions piece1 (at 2 1)).
             \<not> specValidRange s \<or> segmentToId s \<in> {''3,2,v''}"
    unfolding pos by (simp add: seg_def id_defs)
  have b: "\<not> (\<exists>s \<in> set (getPieceSegmentPositions piece1 (at 2 1)).
             \<not> specValidRange s \<or> segmentToId s \<in> {''0,0,h''})"
    unfolding pos by (simp add: seg_def id_defs specValidRange_def)
  from a b checkCollision_iff [of piece1 "at 2 1" "{''3,2,v''}"]
    checkCollision_iff [of piece1 "at 2 1" "{''0,0,h''}"]
  show ?thesis by blast
qed

section \<open>Occupancy updates\<close>

lemma fold_updateStep_Add:
  "fold (updateStep Add) segs occ = occ \<union> set (map segmentToId segs)"
  by (induction segs arbitrary: occ) (auto simp: updateStep_def)

lemma fold_updateStep_Remove:
  "fold (updateStep Remove) segs occ = occ - set (map segmentToId segs)"
  by (induction segs arbitrary: occ) (auto simp: updateStep_def)

lemma updateOccupiedSegments_Add:
  "updateOccupiedSegments occ p pos Add = occ \<union> pieceSegmentIds p pos"
  by (simp add: updateOccupiedSegments_def pieceSegmentIds_def fold_updateStep_Add)

lemma updateOccupiedSegments_Remove:
  "updateOccupiedSegments occ p pos Remove = occ - pieceSegmentIds p pos"
  by (simp add: updateOccupiedSegments_def pieceSegmentIds_def fold_updateStep_Remove)

lemma no_collision_disjoint:
  "\<not> checkCollision p pos occ \<Longrightarrow> pieceSegmentIds p pos \<inter> occ = {}"
  by (auto simp: checkCollision_def collisionLoop_iff pieceSegmentIds_def)

section \<open>The scenario of the specification\<close>

text \<open>
  Claim C8. From the initial state, picking up piece-1 (digit 1) from the inventory and
  dropping it at \<open>(2, 1)\<close> leaves nine pieces in the inventory, none of them piece-1, the
  single placed entry of piece-1 at \<open>(2, 1)\<close>, and exactly the segment identities of the
  vertical segments at \<open>(3, 1)\<close> and \<open>(3, 2)\<close> in the occupancy index.
\<close>

theorem pickup_drop_scenario:
  "length (inventory getInitialState) = 10
   \<and> piece1 \<in> set (inventory getInitialState)
   \<and> piece_id piece1 = ''piece-1'' \<and> number piece1 = N1
   \<and> length (inventory scenarioDrop) = 9
   \<and> ''piece-1'' \<notin> set (map piece_id (inventory scenarioDrop))
   \<and> inventory scenarioDrop = map initialPiece [N0, N2, N3, N4, N5, N6, N7, N8, N9]
   \<and> placedPieces (board scenarioDrop) = [\<lparr>piece = piece1, position = at 2 1\<rparr>]
   \<and> occupiedSegments (board scenarioDrop)
       = {segmentToId (seg 3 1 Vertical), segmentToId (seg 3 2 Vertical)}
   \<and> occupiedSegments (board scenarioDrop) = {''3,1,v'', ''3,2,v''}
   \<and> dragState scenarioDrop = None"
  unfolding scenarioDrop_eval
  by (simp add: getInitialState_def initialPiece_def pieceNumberValue_def piece1_def
        seg_def id_defs)

section \<open>Drop after a board pickup without position\<close>

lemma drop_positionless:
  assumes "dragState s = Some d" and "sourceType d = Board" and "sourcePosition d = None"
  shows "gameReducer s (DROP_PIECE pos) = s\<lparr>dragState := None\<rparr>"
  using assms by (simp add: placeOnBoard_def Let_def)

text \<open>
  Claim C10, as stated, fails in its last part: after a board pickup without position, a
  drop at a colliding position does not add the identities of the dragged piece to the
  occupancy index. The set computed for the drop position is discarded by the final
  \<open>return { ...state, dragState: null }\<close>.
\<close>

theorem positionless_drop_counterexample:
  "dragState positionlessPicked
     = Some \<lparr>drag_piece = piece1, sourceType = Board, sourcePosition = None,
             sourcePiece = None\<rparr>
   \<and> checkCollision piece1 (at 5 5) (occupiedSegments (board positionlessPicked))
   \<and> pieceSegmentIds piece1 (at 5 5) = {''6,5,v'', ''6,6,v''}
   \<and> occupiedSegments (board (gameReducer positionlessPicked (DROP_PIECE (at 5 5)))) = {}"
proof -
  have d: "dragState positionlessPicked
     = Some \<lparr>drag_piece = piece1, sourceType = Board, sourcePosition = None,
             sourcePiece = None\<rparr>"
    by (simp add: positionlessPicked_eval)
  have "gameReducer positionlessPicked (DROP_PIECE (at 5 5))
          = positionlessPicked\<lparr>dragState := None\<rparr>"
    by (rule drop_positionless [OF d]) simp_all
  then have "occupiedSegments (board (gameReducer positionlessPicked (DROP_PIECE (at 5 5)))) = {}"
    by (simp add: positionlessPicked_eval getInitialState_def)
  with d piece1_collides_at_5_5 piece1_ids_at_5_5 show ?thesis by simp
qed

text \<open>
  Claim C10, amended. A pickup with source board and no position leaves a drag state with
  source type board and neither source position nor snapshot, and changes nothing else. A
  following drop at a colliding position falls through the collision branch and returns the
  state with the drag state cleared: occupancy, placed pieces and inventory are all those
  from before the pickup.
\<close>

theorem positionless_pickup_then_drop:
  "gameReducer s (PICK_UP_PIECE p Board None)
     = s\<lparr>dragState := Some \<lparr>drag_piece = p, sourceType = Board, sourcePosition = None,
                             sourcePiece = None\<rparr>\<rparr>
   \<and> (checkCollision p pos
         (occupiedSegments (board (gameReducer s (PICK_UP_PIECE p Board None))))
       \<longrightarrow> gameReducer (gameReducer s (PICK_UP_PIECE p Board None)) (DROP_PIECE pos)
             = s\<lparr>dragState := None\<rparr>)"
proof -
  let ?s1 = "gameReducer s (PICK_UP_PIECE p Board None)"
  have s1: "?s1 = s\<lparr>dragState := Some \<lparr>drag_piece = p, sourceType = Board,
                      sourcePosition = None, sourcePiece = None\<rparr>\<rparr>"
    by simp
  have "gameReducer ?s1 (DROP_PIECE pos) = ?s1\<lparr>dragState := None\<rparr>"
    by (rule drop_positionless [where d = "\<lparr>drag_piece = p, sourceType = Board,
          sourcePosition = None, sourcePiece = None\<rparr>"]) simp_all
  then have "gameReducer ?s1 (DROP_PIECE pos) = s\<lparr>dragState := None\<rparr>"
    by simp
  with s1 show ?thesis by blast
qed

theorem positionless_pickup_then_drop_witness:
  "checkCollision piece1 (at 5 5)
     (occupiedSegments (board (gameReducer getInitialState (PICK_UP_PIECE piece1 Board None))))
   \<and> gameReducer (gameReducer getInitialState (PICK_UP_PIECE piece1 Board None))
       (DROP_PIECE (at 5 5)) = getInitialState"
proof -
  have "getInitialState\<lparr>dragState := None\<rparr> = getInitialState"
    by (simp add: getInitialState_def)
  with positionless_pickup_then_drop [of getInitialState piece1 "at 5 5"]
    piece1_collides_at_5_5
  show ?thesis by simp
qed

section \<open>Return to the inventory\<close>

lemma return_during_inventory_drag:
  assumes "dragState s = Some d" and "sourceType d = Inventory"
  shows "gameReducer s (RETURN_TO_INVENTORY p) = gameReducer s CANCEL_DRAG"
  using assms by simp

lemma return_otherwise:
  assumes "\<forall>d. dragState s = Some d \<longrightarrow> sourceType d = Board"
  shows "gameReducer s (RETURN_TO_INVENTORY p) =
     s\<lparr>board := (board s)\<lparr>
          placedPieces := filter (\<lambda>q. piece_id (piece q) \<noteq> piece_id p) (placedPieces (board s)),
          occupiedSegments :=
            (case find (\<lambda>q. piece_id (piece q) = piece_id p) (placedPieces (board s)) of
               None \<Rightarrow> occupiedSegments (board s)
             | Some q \<Rightarrow> occupiedSegments (board s) - placedIds q)\<rparr>,
        inventory := (if piece_id p \<in> inventoryPieceIds s then inventory s
                      else inventory s @ [p]),
        dragState := None\<rparr>"
proof -
  have ex: "list_ex (\<lambda>q. piece_id q = piece_id p) (inventory s)
              \<longleftrightarrow> piece_id p \<in> inventoryPieceIds s"
    by (simp add: list_ex_iff inventoryPieceIds_def image_iff) metis
  have no: "\<not> (case dragState s of None \<Rightarrow> False | Some d \<Rightarrow> sourceType d = Inventory)"
    using assms by (auto split: option.splits)
  show ?thesis
    by (simp add: no ex Let_def updateOccupiedSegments_Remove placedIds_def
          cong: option.case_cong)
qed

section \<open>The collision branch of a drop\<close>

text \<open>
  What a drop at a colliding position does in any state with an active drag, read off the
  collision branch.
\<close>

lemma rejected_drop_parts:
  assumes "dragState s = Some d"
    and "checkCollision (drag_piece d) pos (occupiedSegments (board s))"
  shows "dragState (gameReducer s (DROP_PIECE pos)) = None
       \<and> placedPieces (board (gameReducer s (DROP_PIECE pos))) = placedPieces (board s)
       \<and> inventory (gameReducer s (DROP_PIECE pos)) = inventory s
       \<and> occupiedSegments (board (gameReducer s (DROP_PIECE pos)))
           = (case (sourceType d, sourcePosition d) of
                (Board, Some sp) \<Rightarrow>
                  occupiedSegments (board s)
                  \<union> pieceSegmentIds (case sourcePiece d of Some q \<Rightarrow> q | None \<Rightarrow> drag_piece d) sp
              | _ \<Rightarrow> occupiedSegments (board s))"
proof (cases "sourceType d")
  case Inventory
  with assms show ?thesis by simp
next
  case Board
  show ?thesis
  proof (cases "sourcePosition d")
    case None
    with assms Board have "gameReducer s (DROP_PIECE pos) = s\<lparr>dragState := None\<rparr>"
      by (intro drop_positionless)
    with Board None show ?thesis by simp
  next
    case (Some sp)
    with assms Board show ?thesis
      by (simp add: Let_def updateOccupiedSegments_Add)
  qed
qed

section \<open>Identities covered by lists of placed pieces\<close>

lemma placedSegmentIds_Nil [simp]: "placedSegmentIds [] = {}"
  by (simp add: placedSegmentIds_def)

lemma placedSegmentIds_Cons [simp]:
  "placedSegmentIds (q # qs) = placedIds q \<union> placedSegmentIds qs"
  by (simp add: placedSegmentIds_def)

lemma placedSegmentIds_append [simp]:
  "placedSegmentIds (ps @ qs) = placedSegmentIds ps \<union> placedSegmentIds qs"
  by (simp add: placedSegmentIds_def)

lemma placedIds_subset: "q \<in> set ps \<Longrightarrow> placedIds q \<subseteq> placedSegmentIds ps"
  by (auto simp: placedSegmentIds_def)

lemma placedSegmentIds_filter_subset:
  "placedSegmentIds (filter P ps) \<subseteq> placedSegmentIds ps"
  by (auto simp: placedSegmentIds_def)

lemma disjointPlaced_filter: "disjointPlaced ps \<Longrightarrow> disjointPlaced (filter P ps)"
proof (induction ps)
  case Nil
  then show ?case by simp
next
  case (Cons q qs)
  have "placedSegmentIds (filter P qs) \<subseteq> placedSegmentIds qs"
    by (rule placedSegmentIds_filter_subset)
  with Cons show ?case by auto
qed

lemma disjointPlaced_append_one:
  "disjointPlaced (ps @ [n]) \<longleftrightarrow> disjointPlaced ps \<and> placedIds n \<inter> placedSegmentIds ps = {}"
  by (induction ps) auto

lemma filter_other_ids_same:
  "i \<notin> set (map (\<lambda>q. piece_id (piece q)) ps)
   \<Longrightarrow> filter (\<lambda>r. piece_id (piece r) \<noteq> i) ps = ps"
  by (induction ps) auto

lemma replace_absent_same:
  "i \<notin> set (map (\<lambda>q. piece_id (piece q)) ps)
   \<Longrightarrow> map (\<lambda>r. if piece_id (piece r) = i then n else r) ps = ps"
  by (induction ps) auto

lemma placedSegmentIds_without:
  assumes "distinct (map (\<lambda>q. piece_id (piece q)) ps)" and "disjointPlaced ps" and "q \<in> set ps"
  shows "placedSegmentIds (filter (\<lambda>r. piece_id (piece r) \<noteq> piece_id (piece q)) ps)
           = placedSegmentIds ps - placedIds q"
  using assms
proof (induction ps)
  case Nil
  then show ?case by simp
next
  case (Cons r rs)
  show ?case
  proof (cases "r = q")
    case True
    with Cons.prems have "piece_id (piece q) \<notin> set (map (\<lambda>q. piece_id (piece q)) rs)"
      by simp
    then have "filter (\<lambda>r. piece_id (piece r) \<noteq> piece_id (piece q)) rs = rs"
      by (rule filter_other_ids_same)
    with True Cons.prems show ?thesis by auto
  next
    case False
    with Cons.prems have q: "q \<in> set rs" by simp
    with Cons.prems have ne: "piece_id (piece r) \<noteq> piece_id (piece q)"
      by (auto simp: image_iff)
    from Cons.prems q
    have ih: "placedSegmentIds (filter (\<lambda>r. piece_id (piece r) \<noteq> piece_id (piece q)) rs)
                = placedSegmentIds rs - placedIds q"
      by (intro Cons.IH) simp_all
    from q have "placedIds q \<subseteq> placedSegmentIds rs"
      by (rule placedIds_subset)
    with Cons.prems have "placedIds r \<inter> placedIds q = {}" by auto
    with ne ih show ?thesis by auto
  qed
qed

lemma placedSegmentIds_replace:
  "i \<in> set (map (\<lambda>q. piece_id (piece q)) ps)
   \<Longrightarrow> placedSegmentIds (map (\<lambda>r. if piece_id (piece r) = i then n else r) ps)
        = placedSegmentIds (filter (\<lambda>r. piece_id (piece r) \<noteq> i) ps) \<union> placedIds n"
proof (induction ps)
  case Nil
  then show ?case by simp
next
  case (Cons r rs)
  show ?case
  proof (cases "i \<in> set (map (\<lambda>q. piece_id (piece q)) rs)")
    case True
    with Cons.IH show ?thesis by auto
  next
    case False
    with Cons.prems have r: "piece_id (piece r) = i" by auto
    from False have "map (\<lambda>r. if piece_id (piece r) = i then n else r) rs = rs"
      and "filter (\<lambda>r. piece_id (piece r) \<noteq> i) rs = rs"
      by (simp_all add: replace_absent_same filter_other_ids_same)
    with r show ?thesis by auto
  qed
qed

lemma piece_ids_replace:
  "piece_id (piece n) = i
   \<Longrightarrow> map (\<lambda>q. piece_id (piece q)) (map (\<lambda>r. if piece_id (piece r) = i then n else r) ps)
        = map (\<lambda>q. piece_id (piece q)) ps"
  by (induction ps) auto

lemma placedSegmentIds_replace_subset:
  "placedSegmentIds (map (\<lambda>r. if piece_id (piece r) = i then n else r) ps)
     \<subseteq> placedSegmentIds (filter (\<lambda>r. piece_id (piece r) \<noteq> i) ps) \<union> placedIds n"
  by (induction ps) auto

lemma disjointPlaced_replace:
  assumes "disjointPlaced ps" and "distinct (map (\<lambda>q. piece_id (piece q)) ps)"
    and "placedIds n \<inter> placedSegmentIds (filter (\<lambda>r. piece_id (piece r) \<noteq> i) ps) = {}"
  shows "disjointPlaced (map (\<lambda>r. if piece_id (piece r) = i then n else r) ps)"
  using assms
proof (induction ps)
  case Nil
  then show ?case by simp
next
  case (Cons r rs)
  show ?case
  proof (cases "piece_id (piece r) = i")
    case True
    with Cons.prems have "i \<notin> set (map (\<lambda>q. piece_id (piece q)) rs)" by auto
    then have "map (\<lambda>r. if piece_id (piece r) = i then n else r) rs = rs"
      and "filter (\<lambda>r. piece_id (piece r) \<noteq> i) rs = rs"
      by (simp_all add: replace_absent_same filter_other_ids_same)
    with True Cons.prems show ?thesis by auto
  next
    case False
    from Cons.prems False
    have ih: "disjointPlaced (map (\<lambda>r. if piece_id (piece r) = i then n else r) rs)"
      by (intro Cons.IH) auto
    have sub: "placedSegmentIds (map (\<lambda>r. if piece_id (piece r) = i then n else r) rs)
                 \<subseteq> placedSegmentIds (filter (\<lambda>r. piece_id (piece r) \<noteq> i) rs) \<union> placedIds n"
      by (rule placedSegmentIds_replace_subset)
    have fs: "placedSegmentIds (filter (\<lambda>r. piece_id (piece r) \<noteq> i) rs) \<subseteq> placedSegmentIds rs"
      by (rule placedSegmentIds_filter_subset)
    from Cons.prems False have a: "placedIds r \<inter> placedIds n = {}" by auto
    from Cons.prems have b: "placedIds r \<inter> placedSegmentIds rs = {}" by simp
    from a b sub fs
    have "placedIds r \<inter> placedSegmentIds (map (\<lambda>r. if piece_id (piece r) = i then n else r) rs) = {}"
      by blast
    with False ih show ?thesis by simp
  qed
qed

lemma find_placed:
  assumes "distinct (map (\<lambda>q. piece_id (piece q)) ps)" and "q \<in> set ps"
  shows "find (\<lambda>r. piece_id (piece r) = piece_id (piece q)) ps = Some q"
  using assms by (induction ps) (auto simp: image_iff)

lemma find_absent:
  "i \<notin> set (map (\<lambda>q. piece_id (piece q)) ps) \<Longrightarrow> find (\<lambda>r. piece_id (piece r) = i) ps = None"
  by (induction ps) auto

lemma piece_ids_rotated_inventory:
  "map piece_id (ps[i := rotatePiece (ps ! i) d]) = map piece_id ps"
proof (cases "i < length ps")
  case True
  then show ?thesis by (simp add: map_update list_update_same_conv)
next
  case False
  then have "length ps \<le> i" by simp
  then show ?thesis by (simp add: list_update_beyond)
qed

section \<open>The reducer keeps the state consistent under the dispatched actions\<close>

lemma consistent_parts:
  assumes "distinct (map (\<lambda>q. piece_id (piece q)) (placedPieces (board s)))"
    and "disjointPlaced (placedPieces (board s))"
    and "set (map piece_id (inventory s))
           \<inter> set (map (\<lambda>q. piece_id (piece q)) (placedPieces (board s))) = {}"
    and "dragConsistent s"
  shows "consistent s"
  using assms by (simp add: consistent_def inventoryPieceIds_def boardPieceIds_def)

lemma consistent_distinct:
  "consistent s \<Longrightarrow> distinct (map (\<lambda>q. piece_id (piece q)) (placedPieces (board s)))"
  by (simp add: consistent_def)

lemma consistent_disjoint: "consistent s \<Longrightarrow> disjointPlaced (placedPieces (board s))"
  by (simp add: consistent_def)

lemma consistent_ids:
  "consistent s \<Longrightarrow>
     set (map piece_id (inventory s))
       \<inter> set (map (\<lambda>q. piece_id (piece q)) (placedPieces (board s))) = {}"
  by (simp add: consistent_def inventoryPieceIds_def boardPieceIds_def)

lemma consistent_drag: "consistent s \<Longrightarrow> dragConsistent s"
  by (simp add: consistent_def)

lemma dragConsistent_idle:
  "dragState s = None \<Longrightarrow>
     dragConsistent s \<longleftrightarrow>
       occupiedSegments (board s) = placedSegmentIds (placedPieces (board s))"
  by (simp add: dragConsistent_def)

lemma dragConsistent_inventory:
  "dragState s = Some d \<Longrightarrow> sourceType d = Inventory \<Longrightarrow>
     dragConsistent s \<longleftrightarrow>
       occupiedSegments (board s) = placedSegmentIds (placedPieces (board s))
       \<and> piece_id (drag_piece d) \<in> set (map piece_id (inventory s))"
  by (simp add: dragConsistent_def inventoryPieceIds_def)

lemma dragConsistent_board:
  "dragState s = Some d \<Longrightarrow> sourceType d = Board \<Longrightarrow>
     dragConsistent s \<longleftrightarrow>
       (\<exists>q sp. sourcePiece d = Some q \<and> sourcePosition d = Some sp
          \<and> \<lparr>piece = q, position = sp\<rparr> \<in> set (placedPieces (board s))
          \<and> piece_id (drag_piece d) = piece_id q
          \<and> occupiedSegments (board s) =
              placedSegmentIds
                (filter (\<lambda>r. piece_id (piece r) \<noteq> piece_id q) (placedPieces (board s))))"
  by (simp add: dragConsistent_def)

lemma others_of_placed:
  assumes c: "consistent s" and q: "\<lparr>piece = p, position = sp\<rparr> \<in> set (placedPieces (board s))"
  shows "placedSegmentIds
           (filter (\<lambda>r. piece_id (piece r) \<noteq> piece_id p) (placedPieces (board s)))
         = placedSegmentIds (placedPieces (board s)) - pieceSegmentIds p sp"
  using placedSegmentIds_without [OF consistent_distinct [OF c] consistent_disjoint [OF c] q]
  by (simp add: placedIds_def)

lemma placed_covered:
  assumes "\<lparr>piece = p, position = sp\<rparr> \<in> set (placedPieces (board s))"
  shows "pieceSegmentIds p sp \<subseteq> placedSegmentIds (placedPieces (board s))"
  using placedIds_subset [OF assms] by (simp add: placedIds_def)

lemma consistent_initial: "consistent getInitialState"
  by (simp add: consistent_def dragConsistent_def boardPieceIds_def getInitialState_def)

lemma consistent_pickup_inventory:
  assumes c: "consistent s" and idle: "dragState s = None" and p: "p \<in> set (inventory s)"
  shows "consistent (gameReducer s (PICK_UP_PIECE p Inventory pos))"
proof -
  let ?d = "\<lparr>drag_piece = p, sourceType = Inventory, sourcePosition = None, sourcePiece = None\<rparr>"
  have s': "gameReducer s (PICK_UP_PIECE p Inventory pos) = s\<lparr>dragState := Some ?d\<rparr>"
    by simp
  from c idle have occ: "occupiedSegments (board s) = placedSegmentIds (placedPieces (board s))"
    by (simp add: consistent_def dragConsistent_def)
  have "dragConsistent (s\<lparr>dragState := Some ?d\<rparr>)"
    using occ p by (simp add: dragConsistent_def inventoryPieceIds_def)
  with c show ?thesis
    unfolding s' by (simp add: consistent_def inventoryPieceIds_def boardPieceIds_def)
qed

lemma consistent_pickup_board:
  assumes c: "consistent s"
    and q: "\<lparr>piece = p, position = sp\<rparr> \<in> set (placedPieces (board s))"
    and idle: "dragState s = None
               \<or> dragState s = Some \<lparr>drag_piece = p, sourceType = Board,
                                      sourcePosition = Some sp, sourcePiece = Some p\<rparr>"
  shows "consistent (gameReducer s (PICK_UP_PIECE p Board (Some sp)))"
proof -
  let ?d = "\<lparr>drag_piece = p, sourceType = Board, sourcePosition = Some sp, sourcePiece = Some p\<rparr>"
  let ?s' = "gameReducer s (PICK_UP_PIECE p Board (Some sp))"
  have parts: "placedPieces (board ?s') = placedPieces (board s)" "inventory ?s' = inventory s"
    "dragState ?s' = Some ?d"
    "occupiedSegments (board ?s') = occupiedSegments (board s) - pieceSegmentIds p sp"
    by (simp_all add: updateOccupiedSegments_Remove)
  note others = others_of_placed [OF c q]
  from idle
  have "occupiedSegments (board s) - pieceSegmentIds p sp
          = placedSegmentIds
              (filter (\<lambda>r. piece_id (piece r) \<noteq> piece_id p) (placedPieces (board s)))"
  proof
    assume "dragState s = None"
    with c have "occupiedSegments (board s) = placedSegmentIds (placedPieces (board s))"
      by (simp add: consistent_def dragConsistent_def)
    with others show ?thesis by simp
  next
    assume d: "dragState s = Some ?d"
    from consistent_drag [OF c]
    have "occupiedSegments (board s)
            = placedSegmentIds
                (filter (\<lambda>r. piece_id (piece r) \<noteq> piece_id p) (placedPieces (board s)))"
      by (simp add: dragConsistent_board [OF d])
    with others show ?thesis by auto
  qed
  with q have "dragConsistent ?s'"
    by (subst dragConsistent_board [where d = ?d]) (simp_all only: parts, simp_all)
  with c show ?thesis
    by (intro consistent_parts)
       (simp_all only: parts consistent_distinct consistent_disjoint consistent_ids)
qed

lemma consistent_cleared:
  assumes c: "consistent s"
    and occ: "occupiedSegments (board s) = placedSegmentIds (placedPieces (board s))"
  shows "consistent (s\<lparr>dragState := None\<rparr>)"
  using c occ
  by (simp add: consistent_def dragConsistent_def inventoryPieceIds_def boardPieceIds_def)

lemma consistent_restored:
  assumes c: "consistent s" and d: "dragState s = Some d" and b: "sourceType d = Board"
    and sp: "sourcePosition d = Some sp"
  shows "consistent
           (s\<lparr>board := (board s)\<lparr>occupiedSegments :=
                 updateOccupiedSegments (occupiedSegments (board s))
                   (case sourcePiece d of Some q \<Rightarrow> q | None \<Rightarrow> drag_piece d) sp Add\<rparr>,
              dragState := None\<rparr>)"
proof -
  from consistent_drag [OF c] sp obtain q where
    q: "sourcePiece d = Some q" "\<lparr>piece = q, position = sp\<rparr> \<in> set (placedPieces (board s))"
      "occupiedSegments (board s) =
         placedSegmentIds
           (filter (\<lambda>r. piece_id (piece r) \<noteq> piece_id q) (placedPieces (board s)))"
    by (auto simp: dragConsistent_board [OF d b])
  from q(3) others_of_placed [OF c q(2)] placed_covered [OF q(2)]
  have "occupiedSegments (board s) \<union> pieceSegmentIds q sp
          = placedSegmentIds (placedPieces (board s))"
    by auto
  with c q(1) show ?thesis
    by (simp add: consistent_def dragConsistent_def inventoryPieceIds_def boardPieceIds_def
          updateOccupiedSegments_Add)
qed

lemma board_drag_has_position:
  assumes "consistent s" and "dragState s = Some d" and "sourceType d = Board"
  shows "\<exists>sp. sourcePosition d = Some sp"
  using consistent_drag [OF assms(1)] by (auto simp: dragConsistent_board [OF assms(2,3)])

lemma consistent_placed_from_inventory:
  assumes c: "consistent s" and d: "dragState s = Some d" and i: "sourceType d = Inventory"
    and free: "\<not> checkCollision (drag_piece d) pos (occupiedSegments (board s))"
  shows "consistent (placeOnBoard s d pos)"
proof -
  let ?p = "drag_piece d"
  let ?n = "\<lparr>piece = ?p, position = pos\<rparr>"
  let ?s' = "placeOnBoard s d pos"
  have parts: "placedPieces (board ?s') = placedPieces (board s) @ [?n]"
    "inventory ?s' = filter (\<lambda>q. piece_id q \<noteq> piece_id ?p) (inventory s)"
    "dragState ?s' = None"
    "occupiedSegments (board ?s') = occupiedSegments (board s) \<union> pieceSegmentIds ?p pos"
    using i by (simp_all add: placeOnBoard_def Let_def updateOccupiedSegments_Add)
  from consistent_drag [OF c]
  have occ: "occupiedSegments (board s) = placedSegmentIds (placedPieces (board s))"
    and inv: "piece_id ?p \<in> set (map piece_id (inventory s))"
    by (simp_all add: dragConsistent_inventory [OF d i])
  from inv consistent_ids [OF c]
  have new: "piece_id ?p \<notin> set (map (\<lambda>q. piece_id (piece q)) (placedPieces (board s)))"
    by auto
  have 1: "distinct (map (\<lambda>q. piece_id (piece q)) (placedPieces (board ?s')))"
    using consistent_distinct [OF c] new by (simp add: parts)
  from no_collision_disjoint [OF free] occ
  have "placedIds ?n \<inter> placedSegmentIds (placedPieces (board s)) = {}"
    by (simp add: placedIds_def)
  then have 2: "disjointPlaced (placedPieces (board ?s'))"
    using consistent_disjoint [OF c] by (simp add: parts disjointPlaced_append_one)
  have 3: "set (map piece_id (inventory ?s'))
             \<inter> set (map (\<lambda>q. piece_id (piece q)) (placedPieces (board ?s'))) = {}"
    using consistent_ids [OF c] by (auto simp: parts)
  have 4: "dragConsistent ?s'"
    using occ by (simp add: dragConsistent_idle parts placedIds_def Un_commute)
  from 1 2 3 4 show ?thesis by (rule consistent_parts)
qed

lemma consistent_moved_on_board:
  assumes c: "consistent s" and d: "dragState s = Some d" and b: "sourceType d = Board"
    and free: "\<not> checkCollision (drag_piece d) pos (occupiedSegments (board s))"
  shows "consistent (placeOnBoard s d pos)"
proof -
  let ?p = "drag_piece d"
  let ?n = "\<lparr>piece = ?p, position = pos\<rparr>"
  let ?s' = "placeOnBoard s d pos"
  from consistent_drag [OF c] obtain q sp where
    q: "sourcePiece d = Some q" "sourcePosition d = Some sp"
      "\<lparr>piece = q, position = sp\<rparr> \<in> set (placedPieces (board s))"
      "piece_id ?p = piece_id q"
      "occupiedSegments (board s) =
         placedSegmentIds
           (filter (\<lambda>r. piece_id (piece r) \<noteq> piece_id q) (placedPieces (board s)))"
    by (auto simp: dragConsistent_board [OF d b])
  have parts: "placedPieces (board ?s')
                 = map (\<lambda>r. if piece_id (piece r) = piece_id q then ?n else r)
                     (placedPieces (board s))"
    "inventory ?s' = inventory s"
    "dragState ?s' = None"
    "occupiedSegments (board ?s') = occupiedSegments (board s) \<union> pieceSegmentIds ?p pos"
    using b q(2,4) by (simp_all add: placeOnBoard_def Let_def updateOccupiedSegments_Add)
  have ids: "map (\<lambda>q. piece_id (piece q)) (placedPieces (board ?s'))
               = map (\<lambda>q. piece_id (piece q)) (placedPieces (board s))"
    unfolding parts by (rule piece_ids_replace) (simp add: q(4))
  have 1: "distinct (map (\<lambda>q. piece_id (piece q)) (placedPieces (board ?s')))"
    using consistent_distinct [OF c] by (simp only: ids)
  from no_collision_disjoint [OF free] q(5)
  have away: "placedIds ?n \<inter> placedSegmentIds
                (filter (\<lambda>r. piece_id (piece r) \<noteq> piece_id q) (placedPieces (board s))) = {}"
    by (simp add: placedIds_def)
  have 2: "disjointPlaced (placedPieces (board ?s'))"
    unfolding parts
    by (rule disjointPlaced_replace [OF consistent_disjoint [OF c] consistent_distinct [OF c] away])
  have 3: "set (map piece_id (inventory ?s'))
             \<inter> set (map (\<lambda>q. piece_id (piece q)) (placedPieces (board ?s'))) = {}"
    using consistent_ids [OF c] by (simp only: ids parts(2))
  from q(3) have "piece_id q \<in> set (map (\<lambda>q. piece_id (piece q)) (placedPieces (board s)))"
    by force
  from placedSegmentIds_replace [OF this, of ?n] q(5)
  have 4: "dragConsistent ?s'"
    by (simp add: dragConsistent_idle parts placedIds_def)
  from 1 2 3 4 show ?thesis by (rule consistent_parts)
qed

lemma consistent_drop:
  assumes c: "consistent s"
  shows "consistent (gameReducer s (DROP_PIECE pos))"
proof (cases "dragState s")
  case None
  with c show ?thesis by simp
next
  case (Some d)
  show ?thesis
  proof (cases "sourceType d")
    case Inventory
    from consistent_drag [OF c]
    have occ: "occupiedSegments (board s) = placedSegmentIds (placedPieces (board s))"
      by (simp add: dragConsistent_inventory [OF Some Inventory])
    show ?thesis
    proof (cases "checkCollision (drag_piece d) pos (occupiedSegments (board s))")
      case True
      with Some Inventory consistent_cleared [OF c occ] show ?thesis by simp
    next
      case False
      with Some consistent_placed_from_inventory [OF c Some Inventory False] show ?thesis
        by simp
    qed
  next
    case Board
    from board_drag_has_position [OF c Some Board]
    obtain sp where sp: "sourcePosition d = Some sp" ..
    show ?thesis
    proof (cases "checkCollision (drag_piece d) pos (occupiedSegments (board s))")
      case True
      with Some Board sp consistent_restored [OF c Some Board sp] show ?thesis
        by (simp add: Let_def)
    next
      case False
      with Some consistent_moved_on_board [OF c Some Board False] show ?thesis
        by simp
    qed
  qed
qed

lemma consistent_cancel:
  assumes c: "consistent s"
  shows "consistent (gameReducer s CANCEL_DRAG)"
proof (cases "dragState s")
  case None
  with c show ?thesis by simp
next
  case (Some d)
  show ?thesis
  proof (cases "sourceType d")
    case Inventory
    from consistent_drag [OF c]
    have occ: "occupiedSegments (board s) = placedSegmentIds (placedPieces (board s))"
      by (simp add: dragConsistent_inventory [OF Some Inventory])
    with Some Inventory consistent_cleared [OF c occ] show ?thesis by simp
  next
    case Board
    from board_drag_has_position [OF c Some Board]
    obtain sp where sp: "sourcePosition d = Some sp" ..
    with Some Board consistent_restored [OF c Some Board sp] show ?thesis
      by (simp add: Let_def)
  qed
qed

lemma consistent_reset: "consistent (gameReducer s RESET_BOARD)"
  by (simp add: consistent_initial)

lemma rotate_shape:
  "\<exists>inv' ds'. gameReducer s (ROTATE_PIECE pieceId direction)
       = s\<lparr>inventory := inv', dragState := ds'\<rparr>
     \<and> map piece_id inv' = map piece_id (inventory s)
     \<and> (case dragState s of
          None \<Rightarrow> ds' = None
        | Some d \<Rightarrow> \<exists>p'. ds' = Some (d\<lparr>drag_piece := p'\<rparr>)
                      \<and> piece_id p' = piece_id (drag_piece d))"
proof (cases "findIndex (\<lambda>p. piece_id p = pieceId) (inventory s) = None
              \<and> \<not> (case dragState s of None \<Rightarrow> False
                                    | Some d \<Rightarrow> piece_id (drag_piece d) = pieceId)")
  case True
  then have "gameReducer s (ROTATE_PIECE pieceId direction)
               = s\<lparr>inventory := inventory s, dragState := dragState s\<rparr>"
    by (simp add: Let_def)
  moreover have "case dragState s of
          None \<Rightarrow> dragState s = None
        | Some d \<Rightarrow> \<exists>p'. dragState s = Some (d\<lparr>drag_piece := p'\<rparr>)
                      \<and> piece_id p' = piece_id (drag_piece d)"
  proof (cases "dragState s")
    case None
    then show ?thesis by simp
  next
    case (Some d)
    then show ?thesis by (auto intro!: exI [of _ "drag_piece d"])
  qed
  ultimately show ?thesis by blast
next
  case False
  let ?inv = "case findIndex (\<lambda>p. piece_id p = pieceId) (inventory s) of
                None \<Rightarrow> inventory s
              | Some i \<Rightarrow> (inventory s)[i := rotatePiece (inventory s ! i) direction]"
  let ?ds = "case dragState s of
               None \<Rightarrow> None
             | Some d \<Rightarrow>
                 if piece_id (drag_piece d) = pieceId
                 then Some (d\<lparr>drag_piece := rotatePiece (drag_piece d) direction\<rparr>)
                 else Some d"
  have "gameReducer s (ROTATE_PIECE pieceId direction)
          = s\<lparr>inventory := ?inv, dragState := ?ds\<rparr>"
    by (simp only: gameReducer.simps Let_def if_not_P [OF False])
  moreover have "map piece_id ?inv = map piece_id (inventory s)"
    by (simp add: piece_ids_rotated_inventory split: option.splits)
  moreover have "case dragState s of
          None \<Rightarrow> ?ds = None
        | Some d \<Rightarrow> \<exists>p'. ?ds = Some (d\<lparr>drag_piece := p'\<rparr>)
                      \<and> piece_id p' = piece_id (drag_piece d)"
  proof (cases "dragState s")
    case None
    then show ?thesis by simp
  next
    case (Some d)
    show ?thesis
    proof (cases "piece_id (drag_piece d) = pieceId")
      case True
      with Some show ?thesis by auto
    next
      case False
      with Some show ?thesis by (auto intro!: exI [of _ "drag_piece d"])
    qed
  qed
  ultimately show ?thesis by blast
qed

lemma consistent_same_ids:
  assumes c: "consistent s" and inv: "map piece_id inv' = map piece_id (inventory s)"
    and ds: "case dragState s of
               None \<Rightarrow> ds' = None
             | Some d \<Rightarrow> \<exists>p'. ds' = Some (d\<lparr>drag_piece := p'\<rparr>)
                           \<and> piece_id p' = piece_id (drag_piece d)"
  shows "consistent (s\<lparr>inventory := inv', dragState := ds'\<rparr>)"
proof -
  let ?s' = "s\<lparr>inventory := inv', dragState := ds'\<rparr>"
  have 4: "dragConsistent ?s'"
  proof (cases "dragState s")
    case None
    with ds consistent_drag [OF c] show ?thesis
      by (simp add: dragConsistent_def)
  next
    case (Some d)
    with ds obtain p' where p': "ds' = Some (d\<lparr>drag_piece := p'\<rparr>)"
      "piece_id p' = piece_id (drag_piece d)"
      by auto
    have d': "dragState ?s' = Some (d\<lparr>drag_piece := p'\<rparr>)"
      by (simp add: p')
    show ?thesis
    proof (cases "sourceType d")
      case Inventory
      from consistent_drag [OF c]
      have "occupiedSegments (board s) = placedSegmentIds (placedPieces (board s))"
        and "piece_id (drag_piece d) \<in> set (map piece_id (inventory s))"
        by (simp_all add: dragConsistent_inventory [OF Some Inventory])
      with p'(2) inv Inventory show ?thesis
        by (subst dragConsistent_inventory [OF d']) simp_all
    next
      case Board
      from consistent_drag [OF c] obtain q sp where
        "sourcePiece d = Some q" "sourcePosition d = Some sp"
        "\<lparr>piece = q, position = sp\<rparr> \<in> set (placedPieces (board s))"
        "piece_id (drag_piece d) = piece_id q"
        "occupiedSegments (board s) =
           placedSegmentIds
             (filter (\<lambda>r. piece_id (piece r) \<noteq> piece_id q) (placedPieces (board s)))"
        by (auto simp: dragConsistent_board [OF Some Board])
      with p'(2) Board show ?thesis
        by (subst dragConsistent_board [OF d']) simp_all
    qed
  qed
  from c inv 4 show ?thesis
    by (simp add: consistent_def inventoryPieceIds_def boardPieceIds_def)
qed

lemma consistent_rotate:
  assumes "consistent s"
  shows "consistent (gameReducer s (ROTATE_PIECE pieceId direction))"
proof -
  from rotate_shape [of s pieceId direction] obtain inv' ds' where
    "gameReducer s (ROTATE_PIECE pieceId direction) = s\<lparr>inventory := inv', dragState := ds'\<rparr>"
    "map piece_id inv' = map piece_id (inventory s)"
    "case dragState s of
       None \<Rightarrow> ds' = None
     | Some d \<Rightarrow> \<exists>p'. ds' = Some (d\<lparr>drag_piece := p'\<rparr>) \<and> piece_id p' = piece_id (drag_piece d)"
    by blast
  with consistent_same_ids [OF assms, of inv' ds'] show ?thesis by simp
qed

lemma consistent_return:
  assumes c: "consistent s" and a: "allowed s (RETURN_TO_INVENTORY p)"
  shows "consistent (gameReducer s (RETURN_TO_INVENTORY p))"
proof (cases "\<exists>d. dragState s = Some d \<and> sourceType d = Inventory")
  case True
  then obtain d where d: "dragState s = Some d" "sourceType d = Inventory" by blast
  from return_during_inventory_drag [OF d] consistent_cancel [OF c] show ?thesis by simp
next
  case False
  then have board: "\<forall>d. dragState s = Some d \<longrightarrow> sourceType d = Board"
    by (metis SourceType.exhaust)
  let ?ps = "placedPieces (board s)"
  let ?i = "piece_id p"
  let ?s' = "gameReducer s (RETURN_TO_INVENTORY p)"
  let ?occ' = "case find (\<lambda>q. piece_id (piece q) = ?i) ?ps of
                 None \<Rightarrow> occupiedSegments (board s)
               | Some q \<Rightarrow> occupiedSegments (board s) - placedIds q"
  have parts: "placedPieces (board ?s') = filter (\<lambda>q. piece_id (piece q) \<noteq> ?i) ?ps"
    "inventory ?s' = (if ?i \<in> inventoryPieceIds s then inventory s else inventory s @ [p])"
    "dragState ?s' = None"
    "occupiedSegments (board ?s') = ?occ'"
    by (simp_all only: return_otherwise [OF board]) simp_all
  have 1: "distinct (map (\<lambda>q. piece_id (piece q)) (placedPieces (board ?s')))"
    using consistent_distinct [OF c] by (simp add: parts distinct_map_filter)
  have 2: "disjointPlaced (placedPieces (board ?s'))"
    using consistent_disjoint [OF c] by (simp add: parts disjointPlaced_filter)
  have 3: "set (map piece_id (inventory ?s'))
             \<inter> set (map (\<lambda>q. piece_id (piece q)) (placedPieces (board ?s'))) = {}"
    using consistent_ids [OF c] by (auto simp: parts)
  have occ': "?occ' = placedSegmentIds (filter (\<lambda>q. piece_id (piece q) \<noteq> ?i) ?ps)"
  proof (cases "dragState s")
    case None
    with consistent_drag [OF c]
    have occ: "occupiedSegments (board s) = placedSegmentIds ?ps"
      by (simp add: dragConsistent_idle)
    show ?thesis
    proof (cases "?i \<in> set (map (\<lambda>q. piece_id (piece q)) ?ps)")
      case True
      then obtain q where q: "q \<in> set ?ps" "piece_id (piece q) = ?i" by auto
      from find_placed [OF consistent_distinct [OF c] q(1)] q(2)
      have "find (\<lambda>r. piece_id (piece r) = ?i) ?ps = Some q" by simp
      with occ q(2)
        placedSegmentIds_without [OF consistent_distinct [OF c] consistent_disjoint [OF c] q(1)]
      show ?thesis by simp
    next
      case False
      with occ show ?thesis by (simp add: find_absent filter_other_ids_same)
    qed
  next
    case (Some d)
    with board have b: "sourceType d = Board" by simp
    from consistent_drag [OF c] obtain q sp where
      q: "\<lparr>piece = q, position = sp\<rparr> \<in> set ?ps" "piece_id (drag_piece d) = piece_id q"
        "occupiedSegments (board s) =
           placedSegmentIds (filter (\<lambda>r. piece_id (piece r) \<noteq> piece_id q) ?ps)"
      by (auto simp: dragConsistent_board [OF Some b])
    from a Some b q(2) have same: "?i = piece_id q" by simp
    from find_placed [OF consistent_distinct [OF c] q(1)] same
    have f: "find (\<lambda>r. piece_id (piece r) = ?i) ?ps = Some \<lparr>piece = q, position = sp\<rparr>"
      by simp
    from placedSegmentIds_without [OF consistent_distinct [OF c] consistent_disjoint [OF c] q(1)]
    have "placedSegmentIds (filter (\<lambda>r. piece_id (piece r) \<noteq> piece_id q) ?ps)
            = placedSegmentIds ?ps - placedIds \<lparr>piece = q, position = sp\<rparr>"
      by simp
    with q(3) f same show ?thesis by auto
  qed
  have 4: "dragConsistent ?s'"
    using occ' by (simp only: dragConsistent_idle [OF parts(3)] parts(1,4))
  from 1 2 3 4 show ?thesis by (rule consistent_parts)
qed

lemma consistent_step:
  assumes c: "consistent s" and a: "allowed s a"
  shows "consistent (gameReducer s a)"
proof (cases a)
  case (PICK_UP_PIECE p src pos)
  show ?thesis
  proof (cases src)
    case Inventory
    with a PICK_UP_PIECE consistent_pickup_inventory [OF c, of p pos] show ?thesis by simp
  next
    case Board
    with a PICK_UP_PIECE obtain sp where sp: "pos = Some sp"
      by (cases pos) simp_all
    with a PICK_UP_PIECE Board consistent_pickup_board [OF c, of p sp] show ?thesis by simp
  qed
next
  case (DROP_PIECE pos)
  with consistent_drop [OF c] show ?thesis by simp
next
  case CANCEL_DRAG
  with consistent_cancel [OF c] show ?thesis by simp
next
  case (ROTATE_PIECE i d)
  with consistent_rotate [OF c] show ?thesis by simp
next
  case (RETURN_TO_INVENTORY p)
  with consistent_return [OF c] a show ?thesis by simp
next
  case RESET_BOARD
  with consistent_reset show ?thesis by simp
next
  case (LOAD_STATE t)
  with a show ?thesis by simp
qed

lemma guardedReachable_consistent: "guardedReachable s \<Longrightarrow> consistent s"
proof (induction rule: guardedReachable.induct)
  case g_initial
  show ?case by (rule consistent_initial)
next
  case (g_step s a)
  then show ?case by (intro consistent_step)
next
  case (g_load s t)
  then show ?case by simp
qed

section \<open>Occupancy equals the union over the placed pieces\<close>

lemma guarded_inventoryPicked: "guardedReachable inventoryPicked"
  unfolding inventoryPicked_def
  by (rule guardedReachable.g_step [OF guardedReachable.g_initial])
     (simp add: getInitialState_def piece1_def)

lemma guarded_scenarioDrop: "guardedReachable scenarioDrop"
  unfolding scenarioDrop_def
  by (rule guardedReachable.g_step [OF guarded_inventoryPicked]) simp

lemma guarded_boardPicked: "guardedReachable boardPicked"
  unfolding boardPicked_def
  by (rule guardedReachable.g_step [OF guarded_scenarioDrop]) (simp add: scenarioDrop_eval)

text \<open>
  Claim C1, as stated, fails: the reducer accepts a pickup that names the board as source
  for a piece that is not placed. From the initial state, picking up piece-1 (which lies in
  the inventory) with source board at \<open>(0, 0)\<close> and dropping it at \<open>(2, 1)\<close> gives a state with
  no drag, no placed piece, and two occupied segments.
\<close>

theorem stray_pickup_counterexample:
  "reachable strayDrop \<and> dragState strayDrop = None
   \<and> placedPieces (board strayDrop) = []
   \<and> occupiedSegments (board strayDrop) = {''3,1,v'', ''3,2,v''}
   \<and> occupiedSegments (board strayDrop) \<noteq> placedSegmentIds (placedPieces (board strayDrop))"
  using reachable_strayDrop by (simp add: strayDrop_eval getInitialState_def)

text \<open>
  Claim C1, amended. In every state reached from the initial state by the actions the
  components dispatch (a pickup names an inventory piece, or a placed piece with its
  position, and starts when no other drag is active; a return to the inventory during a
  drag from the board names the dragged piece; a loaded state is itself such a state), the
  occupancy index equals the union of the segment identities of the placed pieces whenever
  no piece is in flight, and also while a piece from the inventory is in flight. While a
  piece from the board is in flight, the index is that union without the identities of the
  snapshot at its source position, the snapshot being a placed entry.
\<close>

theorem occupancy_matches_placed_pieces:
  assumes "guardedReachable s"
  shows "(dragState s = None \<longrightarrow>
            occupiedSegments (board s) = placedSegmentIds (placedPieces (board s)))
       \<and> (\<forall>d. dragState s = Some d \<and> sourceType d = Inventory \<longrightarrow>
            occupiedSegments (board s) = placedSegmentIds (placedPieces (board s)))
       \<and> (\<forall>d. dragState s = Some d \<and> sourceType d = Board \<longrightarrow>
            (\<exists>q sp. sourcePiece d = Some q \<and> sourcePosition d = Some sp
               \<and> \<lparr>piece = q, position = sp\<rparr> \<in> set (placedPieces (board s))
               \<and> occupiedSegments (board s)
                   = placedSegmentIds (placedPieces (board s)) - pieceSegmentIds q sp))"
proof -
  from assms have c: "consistent s" by (rule guardedReachable_consistent)
  have 1: "dragState s = None \<longrightarrow>
             occupiedSegments (board s) = placedSegmentIds (placedPieces (board s))"
    using consistent_drag [OF c] by (auto simp: dragConsistent_def)
  have 2: "\<forall>d. dragState s = Some d \<and> sourceType d = Inventory \<longrightarrow>
             occupiedSegments (board s) = placedSegmentIds (placedPieces (board s))"
    using consistent_drag [OF c] by (auto simp: dragConsistent_def)
  have 3: "\<forall>d. dragState s = Some d \<and> sourceType d = Board \<longrightarrow>
            (\<exists>q sp. sourcePiece d = Some q \<and> sourcePosition d = Some sp
               \<and> \<lparr>piece = q, position = sp\<rparr> \<in> set (placedPieces (board s))
               \<and> occupiedSegments (board s)
                   = placedSegmentIds (placedPieces (board s)) - pieceSegmentIds q sp)"
  proof (intro allI impI)
    fix d
    assume d: "dragState s = Some d \<and> sourceType d = Board"
    with consistent_drag [OF c] obtain q sp where
      q: "sourcePiece d = Some q" "sourcePosition d = Some sp"
        "\<lparr>piece = q, position = sp\<rparr> \<in> set (placedPieces (board s))"
        "occupiedSegments (board s) =
           placedSegmentIds
             (filter (\<lambda>r. piece_id (piece r) \<noteq> piece_id q) (placedPieces (board s)))"
      by (auto simp: dragConsistent_def)
    from q(4) others_of_placed [OF c q(3)]
    have "occupiedSegments (board s)
            = placedSegmentIds (placedPieces (board s)) - pieceSegmentIds q sp"
      by simp
    with q(1-3) show "\<exists>q sp. sourcePiece d = Some q \<and> sourcePosition d = Some sp
               \<and> \<lparr>piece = q, position = sp\<rparr> \<in> set (placedPieces (board s))
               \<and> occupiedSegments (board s)
                   = placedSegmentIds (placedPieces (board s)) - pieceSegmentIds q sp"
      by blast
  qed
  from 1 2 3 show ?thesis by blast
qed

theorem occupancy_matches_placed_pieces_witness:
  "guardedReachable scenarioDrop \<and> dragState scenarioDrop = None
   \<and> occupiedSegments (board scenarioDrop) = placedSegmentIds (placedPieces (board scenarioDrop))
   \<and> guardedReachable inventoryPicked
   \<and> dragState inventoryPicked
       = Some \<lparr>drag_piece = piece1, sourceType = Inventory, sourcePosition = None,
               sourcePiece = None\<rparr>
   \<and> occupiedSegments (board inventoryPicked)
       = placedSegmentIds (placedPieces (board inventoryPicked))
   \<and> guardedReachable boardPicked
   \<and> dragState boardPicked
       = Some \<lparr>drag_piece = piece1, sourceType = Board, sourcePosition = Some (at 2 1),
               sourcePiece = Some piece1\<rparr>
   \<and> occupiedSegments (board boardPicked)
       = placedSegmentIds (placedPieces (board boardPicked)) - pieceSegmentIds piece1 (at 2 1)"
proof -
  have a: "dragState scenarioDrop = None"
    by (simp add: scenarioDrop_eval)
  have b: "dragState inventoryPicked
       = Some \<lparr>drag_piece = piece1, sourceType = Inventory, sourcePosition = None,
               sourcePiece = None\<rparr>"
    by (simp add: inventoryPicked_eval)
  have c: "dragState boardPicked
       = Some \<lparr>drag_piece = piece1, sourceType = Board, sourcePosition = Some (at 2 1),
               sourcePiece = Some piece1\<rparr>"
    by (simp add: boardPicked_eval)
  from occupancy_matches_placed_pieces [OF guarded_scenarioDrop] a
  have 1: "occupiedSegments (board scenarioDrop)
             = placedSegmentIds (placedPieces (board scenarioDrop))"
    by blast
  from occupancy_matches_placed_pieces [OF guarded_inventoryPicked] b
  have 2: "occupiedSegments (board inventoryPicked)
             = placedSegmentIds (placedPieces (board inventoryPicked))"
    by simp
  from occupancy_matches_placed_pieces [OF guarded_boardPicked] c
  have 3: "occupiedSegments (board boardPicked)
       = placedSegmentIds (placedPieces (board boardPicked)) - pieceSegmentIds piece1 (at 2 1)"
    by simp
  from a b c 1 2 3 guarded_scenarioDrop guarded_inventoryPicked guarded_boardPicked
  show ?thesis by simp
qed

section \<open>Where a piece is held\<close>

lemma ids_apart_drop:
  assumes "inventoryPieceIds s \<inter> boardPieceIds s = {}"
  shows "inventoryPieceIds (gameReducer s (DROP_PIECE pos))
           \<inter> boardPieceIds (gameReducer s (DROP_PIECE pos)) = {}"
proof (cases "dragState s")
  case None
  with assms show ?thesis by simp
next
  case (Some d)
  have place: "inventoryPieceIds (placeOnBoard s d pos) \<inter> boardPieceIds (placeOnBoard s d pos) = {}"
  proof (cases "sourceType d")
    case Inventory
    with assms show ?thesis
      by (auto simp: placeOnBoard_def Let_def inventoryPieceIds_def boardPieceIds_def)
  next
    case Board
    show ?thesis
    proof (cases "sourcePosition d")
      case None
      with Board assms show ?thesis
        by (simp add: placeOnBoard_def Let_def inventoryPieceIds_def boardPieceIds_def)
    next
      case (Some sp)
      have "map (\<lambda>q. piece_id (piece q))
              (map (\<lambda>q. if piece_id (piece q) = piece_id (drag_piece d)
                         then \<lparr>piece = drag_piece d, position = pos\<rparr> else q)
                 (placedPieces (board s)))
            = map (\<lambda>q. piece_id (piece q)) (placedPieces (board s))"
        by (rule piece_ids_replace) simp
      then have "boardPieceIds (placeOnBoard s d pos) = boardPieceIds s"
        using Board Some by (simp add: placeOnBoard_def Let_def boardPieceIds_def)
      moreover have "inventoryPieceIds (placeOnBoard s d pos) = inventoryPieceIds s"
        using Board Some by (simp add: placeOnBoard_def Let_def inventoryPieceIds_def)
      ultimately show ?thesis using assms by simp
    qed
  qed
  show ?thesis
  proof (cases "checkCollision (drag_piece d) pos (occupiedSegments (board s))")
    case False
    with Some place show ?thesis by simp
  next
    case True
    show ?thesis
    proof (cases "sourceType d")
      case Inventory
      with Some True assms show ?thesis
        by (simp add: inventoryPieceIds_def boardPieceIds_def)
    next
      case Board
      show ?thesis
      proof (cases "sourcePosition d")
        case None
        with Some True Board place show ?thesis by simp
      next
        case (Some sp)
        with \<open>dragState s = Some d\<close> True Board assms show ?thesis
          by (simp add: Let_def inventoryPieceIds_def boardPieceIds_def)
      qed
    qed
  qed
qed

lemma ids_apart_return:
  assumes "inventoryPieceIds s \<inter> boardPieceIds s = {}"
  shows "inventoryPieceIds (gameReducer s (RETURN_TO_INVENTORY p))
           \<inter> boardPieceIds (gameReducer s (RETURN_TO_INVENTORY p)) = {}"
proof (cases "\<exists>d. dragState s = Some d \<and> sourceType d = Inventory")
  case True
  with assms show ?thesis by (auto simp: inventoryPieceIds_def boardPieceIds_def)
next
  case False
  then have board: "\<forall>d. dragState s = Some d \<longrightarrow> sourceType d = Board"
    by (metis SourceType.exhaust)
  let ?s' = "gameReducer s (RETURN_TO_INVENTORY p)"
  have parts:
    "placedPieces (board ?s')
       = filter (\<lambda>q. piece_id (piece q) \<noteq> piece_id p) (placedPieces (board s))"
    "inventory ?s'
       = (if piece_id p \<in> inventoryPieceIds s then inventory s else inventory s @ [p])"
    by (simp_all only: return_otherwise [OF board]) simp_all
  show ?thesis
    unfolding inventoryPieceIds_def boardPieceIds_def parts
    using assms [unfolded inventoryPieceIds_def boardPieceIds_def]
    by (auto split: if_splits)
qed

lemma ids_apart_step:
  assumes a: "\<And>t. a \<noteq> LOAD_STATE t" and s: "inventoryPieceIds s \<inter> boardPieceIds s = {}"
  shows "inventoryPieceIds (gameReducer s a) \<inter> boardPieceIds (gameReducer s a) = {}"
proof (cases a)
  case (PICK_UP_PIECE p src pos)
  with s show ?thesis
    by (simp add: inventoryPieceIds_def boardPieceIds_def split: SourceType.splits option.splits)
next
  case (DROP_PIECE pos)
  with ids_apart_drop [OF s] show ?thesis by simp
next
  case CANCEL_DRAG
  with s show ?thesis
    by (simp add: inventoryPieceIds_def boardPieceIds_def Let_def split: option.splits)
next
  case (ROTATE_PIECE i d)
  from rotate_shape [of s i d] obtain inv' ds' where
    "gameReducer s (ROTATE_PIECE i d) = s\<lparr>inventory := inv', dragState := ds'\<rparr>"
    "map piece_id inv' = map piece_id (inventory s)"
    by blast
  with s ROTATE_PIECE show ?thesis
    by (simp add: inventoryPieceIds_def boardPieceIds_def)
next
  case (RETURN_TO_INVENTORY p)
  with ids_apart_return [OF s] show ?thesis by simp
next
  case RESET_BOARD
  then show ?thesis
    by (simp add: getInitialState_def inventoryPieceIds_def boardPieceIds_def)
next
  case (LOAD_STATE t)
  with a [of t] show ?thesis by blast
qed

lemma reachable_ids_apart: "reachable s \<Longrightarrow> inventoryPieceIds s \<inter> boardPieceIds s = {}"
proof (induction rule: reachable.induct)
  case initial
  show ?case by (simp add: getInitialState_def inventoryPieceIds_def boardPieceIds_def)
next
  case (step s a)
  then show ?case by (intro ids_apart_step)
next
  case (load s t)
  then show ?case by simp
qed

lemma pickup_keeps_collections:
  "inventory (gameReducer s (PICK_UP_PIECE p src pos)) = inventory s
   \<and> placedPieces (board (gameReducer s (PICK_UP_PIECE p src pos))) = placedPieces (board s)"
  by (simp split: SourceType.splits option.splits)

text \<open>
  Claim C2, as stated, fails: a pickup records the piece in the drag state and removes it
  from nowhere. After piece-1 is picked up from the inventory of the initial state it is in
  the drag state and still in the inventory.
\<close>

theorem piece_in_inventory_and_drag_counterexample:
  "reachable inventoryPicked
   \<and> dragState inventoryPicked
       = Some \<lparr>drag_piece = piece1, sourceType = Inventory, sourcePosition = None,
               sourcePiece = None\<rparr>
   \<and> piece1 \<in> set (inventory inventoryPicked)
   \<and> piece_id piece1 \<in> inventoryPieceIds inventoryPicked"
proof -
  have "reachable inventoryPicked"
    unfolding inventoryPicked_def by (intro reachable.step reachable.initial) simp
  then show ?thesis
    by (simp add: inventoryPicked_eval getInitialState_def piece1_def inventoryPieceIds_def)
qed

text \<open>
  Claim C2, amended. In every reachable state no piece id is both in the inventory and in
  the placed pieces. A pickup leaves the inventory and the placed pieces as they are, so
  the piece in flight is listed in its source as well: in every state reached by the
  actions the components dispatch, the id of a piece in flight from the inventory is in the
  inventory and not among the placed pieces, and the id of a piece in flight from the board
  is among the placed pieces and not in the inventory.
\<close>

theorem piece_locations:
  assumes "reachable s"
  shows "inventoryPieceIds s \<inter> boardPieceIds s = {}
       \<and> inventory (gameReducer s (PICK_UP_PIECE p src pos)) = inventory s
       \<and> placedPieces (board (gameReducer s (PICK_UP_PIECE p src pos))) = placedPieces (board s)
       \<and> (guardedReachable s \<longrightarrow>
            (\<forall>d. dragState s = Some d \<longrightarrow>
               (sourceType d = Inventory \<longrightarrow>
                  piece_id (drag_piece d) \<in> inventoryPieceIds s
                  \<and> piece_id (drag_piece d) \<notin> boardPieceIds s)
             \<and> (sourceType d = Board \<longrightarrow>
                  piece_id (drag_piece d) \<in> boardPieceIds s
                  \<and> piece_id (drag_piece d) \<notin> inventoryPieceIds s)))"
proof -
  have apart: "inventoryPieceIds s \<inter> boardPieceIds s = {}"
    using assms by (rule reachable_ids_apart)
  have "\<forall>d. dragState s = Some d \<longrightarrow>
               (sourceType d = Inventory \<longrightarrow>
                  piece_id (drag_piece d) \<in> inventoryPieceIds s
                  \<and> piece_id (drag_piece d) \<notin> boardPieceIds s)
             \<and> (sourceType d = Board \<longrightarrow>
                  piece_id (drag_piece d) \<in> boardPieceIds s
                  \<and> piece_id (drag_piece d) \<notin> inventoryPieceIds s)"
    if g: "guardedReachable s"
  proof (intro allI impI conjI)
    fix d
    assume d: "dragState s = Some d" and i: "sourceType d = Inventory"
    from consistent_drag [OF guardedReachable_consistent [OF g]]
    show "piece_id (drag_piece d) \<in> inventoryPieceIds s"
      by (simp add: dragConsistent_inventory [OF d i] inventoryPieceIds_def)
    with apart show "piece_id (drag_piece d) \<notin> boardPieceIds s" by blast
  next
    fix d
    assume d: "dragState s = Some d" and b: "sourceType d = Board"
    from consistent_drag [OF guardedReachable_consistent [OF g]] obtain q sp where
      "\<lparr>piece = q, position = sp\<rparr> \<in> set (placedPieces (board s))"
      "piece_id (drag_piece d) = piece_id q"
      by (auto simp: dragConsistent_board [OF d b])
    then show "piece_id (drag_piece d) \<in> boardPieceIds s"
      by (force simp: boardPieceIds_def)
    with apart show "piece_id (drag_piece d) \<notin> inventoryPieceIds s" by blast
  qed
  with apart pickup_keeps_collections [of s p src pos] show ?thesis by blast
qed

theorem piece_locations_witness:
  "reachable boardPicked \<and> guardedReachable boardPicked
   \<and> dragState boardPicked
       = Some \<lparr>drag_piece = piece1, sourceType = Board, sourcePosition = Some (at 2 1),
               sourcePiece = Some piece1\<rparr>
   \<and> inventoryPieceIds boardPicked \<inter> boardPieceIds boardPicked = {}
   \<and> piece_id piece1 \<in> boardPieceIds boardPicked
   \<and> piece_id piece1 \<notin> inventoryPieceIds boardPicked"
proof -
  have d: "dragState boardPicked
       = Some \<lparr>drag_piece = piece1, sourceType = Board, sourcePosition = Some (at 2 1),
               sourcePiece = Some piece1\<rparr>"
    by (simp add: boardPicked_eval)
  from piece_locations [OF reachable_boardPicked, of piece1 Inventory None]
    guarded_boardPicked d reachable_boardPicked
  show ?thesis by simp
qed

section \<open>Rejected drops\<close>

lemma strayPicked_eval:
  "strayPicked =
     getInitialState\<lparr>dragState :=
       Some \<lparr>drag_piece = piece1, sourceType = Board, sourcePosition = Some (at 0 0),
             sourcePiece = Some piece1\<rparr>\<rparr>"
  by (simp add: strayPicked_def updateOccupiedSegments_Remove getInitialState_def)

lemma reachable_strayPicked: "reachable strayPicked"
  unfolding strayPicked_def by (intro reachable.step reachable.initial) simp

lemma piece1_ids_at_0_0: "pieceSegmentIds piece1 (at 0 0) = {''1,0,v'', ''1,1,v''}"
  by (simp add: pieceSegmentIds_def geometry_defs id_defs state_defs)

lemma rotate_keeps_board: "board (gameReducer s (ROTATE_PIECE i d)) = board s"
proof -
  from rotate_shape [of s i d] obtain inv' ds' where
    "gameReducer s (ROTATE_PIECE i d) = s\<lparr>inventory := inv', dragState := ds'\<rparr>"
    by blast
  then show ?thesis by simp
qed

lemma rotations_keep_board:
  "list_all isRotate as \<Longrightarrow> board (foldl gameReducer s as) = board s"
proof (induction as arbitrary: s)
  case Nil
  show ?case by simp
next
  case (Cons a as)
  from Cons.prems obtain i d where a: "a = ROTATE_PIECE i d"
    by (cases a) simp_all
  from Cons.prems have "board (foldl gameReducer (gameReducer s a) as) = board (gameReducer s a)"
    by (intro Cons.IH) simp
  with a rotate_keeps_board [of s i d] show ?case by simp
qed

lemma pickup_keeps_placed:
  "placedPieces (board (gameReducer s (PICK_UP_PIECE p src sp))) = placedPieces (board s)"
  by (simp split: SourceType.splits option.splits)

text \<open>
  Claim C7, as stated, fails: the reducer accepts a pickup that names the board as source
  for a piece that is not placed. In the state reached from the initial state by picking up
  piece-1 (which lies in the inventory) with source board at \<open>(0, 0)\<close>, the occupancy index
  is empty, as it was before the pickup, and nothing is placed. The drop at \<open>(5, 5)\<close>,
  outside the grid, is rejected and leaves two occupied segments: the occupancy is neither
  its value from before the drop nor an occupancy the piece had before.
\<close>

theorem stray_rejected_drop_counterexample:
  "reachable strayPicked
   \<and> dragState strayPicked
       = Some \<lparr>drag_piece = piece1, sourceType = Board, sourcePosition = Some (at 0 0),
               sourcePiece = Some piece1\<rparr>
   \<and> checkCollision piece1 (at 5 5) (occupiedSegments (board strayPicked))
   \<and> occupiedSegments (board getInitialState) = {}
   \<and> occupiedSegments (board strayPicked) = {}
   \<and> placedPieces (board strayPicked) = []
   \<and> occupiedSegments (board (gameReducer strayPicked (DROP_PIECE (at 5 5))))
       = {''1,0,v'', ''1,1,v''}"
proof -
  have "occupiedSegments (board (gameReducer strayPicked (DROP_PIECE (at 5 5))))
          = {''1,0,v'', ''1,1,v''}"
    by (simp add: strayPicked_eval piece1_collides_at_5_5 updateOccupiedSegments_Add
          piece1_ids_at_0_0 getInitialState_def)
  with reachable_strayPicked piece1_collides_at_5_5 show ?thesis
    by (simp add: strayPicked_eval getInitialState_def)
qed

text \<open>
  Claim C7, amended. In every state with an active drag that is reached from the initial
  state by the actions the components dispatch, a drop at a colliding position clears the
  drag state and leaves the placed pieces and the inventory as they were before the drop,
  and the occupancy index is again the union over the placed pieces. If the source is the
  inventory, the occupancy index is unchanged too, so the state differs from the one before
  the drop in the drag state only, and the id of the piece is still in the inventory. If
  the source is the board, the snapshot is still a placed entry at the source position and
  the occupancy index is the one from before the drop together with the identities of the
  snapshot there. When the drag is a pickup from an idle state followed by rotations, the
  board after the rejected drop, placed pieces and occupancy, is the board from before the
  pickup.
\<close>

theorem rejected_drop_returns_piece:
  assumes g: "guardedReachable s" and d: "dragState s = Some d"
    and c: "checkCollision (drag_piece d) pos (occupiedSegments (board s))"
  shows "dragState (gameReducer s (DROP_PIECE pos)) = None
       \<and> placedPieces (board (gameReducer s (DROP_PIECE pos))) = placedPieces (board s)
       \<and> inventory (gameReducer s (DROP_PIECE pos)) = inventory s
       \<and> occupiedSegments (board (gameReducer s (DROP_PIECE pos)))
           = placedSegmentIds (placedPieces (board s))
       \<and> (sourceType d = Inventory \<longrightarrow>
            gameReducer s (DROP_PIECE pos) = s\<lparr>dragState := None\<rparr>
            \<and> piece_id (drag_piece d) \<in> inventoryPieceIds (gameReducer s (DROP_PIECE pos)))
       \<and> (sourceType d = Board \<longrightarrow>
            (\<exists>q sp. sourcePiece d = Some q \<and> sourcePosition d = Some sp
               \<and> \<lparr>piece = q, position = sp\<rparr>
                     \<in> set (placedPieces (board (gameReducer s (DROP_PIECE pos))))
               \<and> occupiedSegments (board (gameReducer s (DROP_PIECE pos)))
                   = occupiedSegments (board s) \<union> pieceSegmentIds q sp))
       \<and> (\<forall>s0 p src sp as.
             guardedReachable s0 \<and> dragState s0 = None \<and> allowed s0 (PICK_UP_PIECE p src sp)
             \<and> list_all isRotate as
             \<and> s = foldl gameReducer (gameReducer s0 (PICK_UP_PIECE p src sp)) as
             \<longrightarrow> board (gameReducer s (DROP_PIECE pos)) = board s0)"
proof -
  let ?s' = "gameReducer s (DROP_PIECE pos)"
  from g have cs: "consistent s" by (rule guardedReachable_consistent)
  from rejected_drop_parts [OF d c]
  have 1: "dragState ?s' = None" and 2: "placedPieces (board ?s') = placedPieces (board s)"
    and 3: "inventory ?s' = inventory s"
    and occ: "occupiedSegments (board ?s')
           = (case (sourceType d, sourcePosition d) of
                (Board, Some sp) \<Rightarrow>
                  occupiedSegments (board s)
                  \<union> pieceSegmentIds (case sourcePiece d of Some q \<Rightarrow> q | None \<Rightarrow> drag_piece d) sp
              | _ \<Rightarrow> occupiedSegments (board s))"
    by blast+
  from consistent_drag [OF consistent_drop [OF cs, of pos]]
  have "occupiedSegments (board ?s') = placedSegmentIds (placedPieces (board ?s'))"
    by (simp only: dragConsistent_idle [OF 1])
  then have 4: "occupiedSegments (board ?s') = placedSegmentIds (placedPieces (board s))"
    by (simp only: 2)
  have 5: "sourceType d = Inventory \<longrightarrow>
            ?s' = s\<lparr>dragState := None\<rparr>
            \<and> piece_id (drag_piece d) \<in> inventoryPieceIds ?s'"
  proof
    assume i: "sourceType d = Inventory"
    from d c i have e: "?s' = s\<lparr>dragState := None\<rparr>" by simp
    from consistent_drag [OF cs]
    have "piece_id (drag_piece d) \<in> set (map piece_id (inventory s))"
      by (simp add: dragConsistent_inventory [OF d i])
    then have "piece_id (drag_piece d) \<in> inventoryPieceIds ?s'"
      by (simp only: inventoryPieceIds_def 3)
    with e show "?s' = s\<lparr>dragState := None\<rparr>
            \<and> piece_id (drag_piece d) \<in> inventoryPieceIds ?s'" ..
  qed
  have 6: "sourceType d = Board \<longrightarrow>
            (\<exists>q sp. sourcePiece d = Some q \<and> sourcePosition d = Some sp
               \<and> \<lparr>piece = q, position = sp\<rparr> \<in> set (placedPieces (board ?s'))
               \<and> occupiedSegments (board ?s')
                   = occupiedSegments (board s) \<union> pieceSegmentIds q sp)"
  proof
    assume b: "sourceType d = Board"
    from consistent_drag [OF cs] obtain q sp where
      q: "sourcePiece d = Some q" "sourcePosition d = Some sp"
        "\<lparr>piece = q, position = sp\<rparr> \<in> set (placedPieces (board s))"
      by (auto simp: dragConsistent_board [OF d b])
    from occ b q(1,2)
    have "occupiedSegments (board ?s') = occupiedSegments (board s) \<union> pieceSegmentIds q sp"
      by simp
    with q show "\<exists>q sp. sourcePiece d = Some q \<and> sourcePosition d = Some sp
               \<and> \<lparr>piece = q, position = sp\<rparr> \<in> set (placedPieces (board ?s'))
               \<and> occupiedSegments (board ?s')
                   = occupiedSegments (board s) \<union> pieceSegmentIds q sp"
      by (simp only: 2) blast
  qed
  have 7: "\<forall>s0 p src sp as.
             guardedReachable s0 \<and> dragState s0 = None \<and> allowed s0 (PICK_UP_PIECE p src sp)
             \<and> list_all isRotate as
             \<and> s = foldl gameReducer (gameReducer s0 (PICK_UP_PIECE p src sp)) as
             \<longrightarrow> board ?s' = board s0"
  proof (intro allI impI)
    fix s0 p src sp as
    assume h: "guardedReachable s0 \<and> dragState s0 = None
             \<and> allowed s0 (PICK_UP_PIECE p src sp) \<and> list_all isRotate as
             \<and> s = foldl gameReducer (gameReducer s0 (PICK_UP_PIECE p src sp)) as"
    then have "board s = board (gameReducer s0 (PICK_UP_PIECE p src sp))"
      by (simp add: rotations_keep_board)
    then have placed: "placedPieces (board s) = placedPieces (board s0)"
      by (simp only: pickup_keeps_placed)
    from h consistent_drag [OF guardedReachable_consistent, of s0]
    have "occupiedSegments (board s0) = placedSegmentIds (placedPieces (board s0))"
      by (simp add: dragConsistent_idle)
    with 2 4 placed
    have "placedPieces (board ?s') = placedPieces (board s0)"
      and "occupiedSegments (board ?s') = occupiedSegments (board s0)"
      by simp_all
    then show "board ?s' = board s0" by (intro BoardState.equality) simp_all
  qed
  from 1 2 3 4 5 6 7 show ?thesis by blast
qed

theorem rejected_drop_returns_piece_witness:
  "guardedReachable boardPicked
   \<and> dragState boardPicked
       = Some \<lparr>drag_piece = piece1, sourceType = Board, sourcePosition = Some (at 2 1),
               sourcePiece = Some piece1\<rparr>
   \<and> checkCollision piece1 (at 5 5) (occupiedSegments (board boardPicked))
   \<and> guardedReachable scenarioDrop \<and> dragState scenarioDrop = None
   \<and> allowed scenarioDrop (PICK_UP_PIECE piece1 Board (Some (at 2 1)))
   \<and> boardPicked = foldl gameReducer
        (gameReducer scenarioDrop (PICK_UP_PIECE piece1 Board (Some (at 2 1)))) []
   \<and> dragState (gameReducer boardPicked (DROP_PIECE (at 5 5))) = None
   \<and> inventory (gameReducer boardPicked (DROP_PIECE (at 5 5))) = inventory boardPicked
   \<and> board (gameReducer boardPicked (DROP_PIECE (at 5 5))) = board scenarioDrop
   \<and> occupiedSegments (board (gameReducer boardPicked (DROP_PIECE (at 5 5))))
       = occupiedSegments (board boardPicked) \<union> pieceSegmentIds piece1 (at 2 1)"
proof -
  have d: "dragState boardPicked
     = Some \<lparr>drag_piece = piece1, sourceType = Board, sourcePosition = Some (at 2 1),
             sourcePiece = Some piece1\<rparr>"
    by (simp add: boardPicked_eval)
  have c: "checkCollision (drag_piece \<lparr>drag_piece = piece1, sourceType = Board,
             sourcePosition = Some (at 2 1), sourcePiece = Some piece1\<rparr>) (at 5 5)
             (occupiedSegments (board boardPicked))"
    by (simp add: piece1_collides_at_5_5)
  have i: "dragState scenarioDrop = None" by (simp add: scenarioDrop_eval)
  have a: "allowed scenarioDrop (PICK_UP_PIECE piece1 Board (Some (at 2 1)))"
    by (simp add: scenarioDrop_eval)
  have f: "boardPicked = foldl gameReducer
        (gameReducer scenarioDrop (PICK_UP_PIECE piece1 Board (Some (at 2 1)))) []"
    by (simp add: boardPicked_def)
  note t = rejected_drop_returns_piece [OF guarded_boardPicked d c]
  from t have 1: "dragState (gameReducer boardPicked (DROP_PIECE (at 5 5))) = None"
    and 3: "inventory (gameReducer boardPicked (DROP_PIECE (at 5 5))) = inventory boardPicked"
    by blast+
  have l: "list_all isRotate []" by simp
  from t guarded_scenarioDrop i a f l
  have 7: "board (gameReducer boardPicked (DROP_PIECE (at 5 5))) = board scenarioDrop"
    by blast
  let ?d = "\<lparr>drag_piece = piece1, sourceType = Board, sourcePosition = Some (at 2 1),
             sourcePiece = Some piece1\<rparr>"
  have b: "sourceType ?d = Board" by simp
  from t b obtain q sp where
    q: "sourcePiece ?d = Some q" "sourcePosition ?d = Some sp"
      "occupiedSegments (board (gameReducer boardPicked (DROP_PIECE (at 5 5))))
         = occupiedSegments (board boardPicked) \<union> pieceSegmentIds q sp"
    by blast
  from q(1,2) have "q = piece1" and "sp = at 2 1" by simp_all
  with q(3) have "occupiedSegments (board (gameReducer boardPicked (DROP_PIECE (at 5 5))))
       = occupiedSegments (board boardPicked) \<union> pieceSegmentIds piece1 (at 2 1)"
    by (simp only:)
  with 1 3 7 d c i a f guarded_boardPicked guarded_scenarioDrop piece1_collides_at_5_5
  show ?thesis by simp
qed

section \<open>Return to the inventory, by cases\<close>




end
